theory Spec2Isabelle
  imports Complex_Main "HOL-Library.AList"
begin

section \<open>Data model of \<^verbatim>\<open>automoss/apps/jobs/tasks.py\<close>\<close>

text \<open>
  The task \<^verbatim>\<open>process_job\<close> drives one job through upload, processing and parsing
  against the MOSS service. Statuses and event kinds are the constants imported from the
  settings module; they are kept under their source names.
\<close>

datatype status =
  INQUEUE_STATUS | UPLOADING_STATUS | PROCESSING_STATUS | PARSING_STATUS
  | COMPLETED_STATUS | FAILED_STATUS

datatype event_type =
  INQUEUE_EVENT | UPLOADING_EVENT | PROCESSING_EVENT | PARSING_EVENT
  | COMPLETED_EVENT | FAILED_EVENT | RETRY_EVENT | ERROR_EVENT

text \<open>
  The exceptions that reach the handlers of the attempt loop. The four MOSS classes and
  \<^verbatim>\<open>socket.error\<close> are the ones the \<^verbatim>\<open>except\<close> clauses name; the class
  hierarchy lives in the MOSS module, and the clauses are taken as disjoint (an
  \<^verbatim>\<open>EmptyResponse\<close> is not a \<^verbatim>\<open>RecoverableMossException\<close>). The remaining
  constructors are what only \<^verbatim>\<open>except Exception\<close> catches.
\<close>

datatype exn =
  RecoverableMossException | socket_error | EmptyResponse | FatalMossException
  | DatabaseError | KeyError | DoesNotExist | ValueError | UnknownException

datatype LoadStatus = NORMAL | UNDER_LOAD | DOWN

datatype log_level = LOG_INFO | LOG_DEBUG | LOG_WARNING | LOG_ERROR

text \<open>
  A message is the sequence of pieces of the f-string that builds it, so that no choice
  of number formatting is made here.
\<close>

datatype fragment =
  Str string | Num nat | Secs real | Exc "exn option" | Stat status

type_synonym message = "fragment list"

record job =
  job_id :: string
  status :: status
  language :: string
  max_until_ignored :: int
  max_displayed_matches :: int
  moss_id :: int
  start_date :: "real option"
  completion_date :: "real option"

record submission =
  sub_job :: string
  submission_id :: string
  sub_name :: string

record job_event =
  ev_job :: string
  ev_type :: event_type
  ev_message :: "message option"

record raw_match =
  name_1 :: string
  name_2 :: string
  percentage_1 :: nat
  percentage_2 :: nat
  lines_matched :: nat
  line_matches :: "((nat \<times> nat) \<times> (nat \<times> nat)) list"

record Result =
  res_url :: string
  res_matches :: "raw_match list"

record moss_result =
  mr_job :: string
  mr_url :: string

record match_record =
  m_moss_result :: moss_result
  first_submission :: submission
  second_submission :: submission
  first_percentage :: nat
  second_percentage :: nat
  m_lines_matched :: nat
  m_line_matches :: "((nat \<times> nat) \<times> (nat \<times> nat)) list"

datatype callback =
  on_upload_start | on_upload_finish | on_processing_start | on_processing_finish

datatype service_call =
  GenerateUrl int string "(string \<times> string list) list" int int
  | GenerateReport "string option"
  | DetermineLoad
  | Ping

datatype db_op =
  SaveJob job | CreateEvent job_event | CreateMossResult moss_result
  | CreateMatch match_record

text \<open>
  The world outside the task: the database tables, the process logger, the clock and
  the record of every contact with the external service. \<open>db_ops\<close> counts the write
  operations attempted on the database.
\<close>

record world =
  jobs :: "string \<rightharpoonup> job"
  submissions :: "submission list"
  events :: "job_event list"
  moss_results :: "moss_result list"
  matches :: "match_record list"
  logged :: "(log_level \<times> message) list"
  contacts :: "service_call list"
  clock :: real
  db_ops :: nat

text \<open>The settings the task imports; their values are not part of the task.\<close>

record settings =
  SUBMISSION_TYPES :: "string list"
  FILES_NAME :: string
  SUPPORTED_LANGUAGES :: "string \<rightharpoonup> (string \<times> string)"
  JOB_UPLOAD_TEMPLATE :: "string \<Rightarrow> string"
  DEBUG :: bool
  MIN_RETRY_TIME :: real
  MAX_RETRY_TIME :: real
  MAX_RETRY_DURATION :: real
  EXPONENTIAL_BACKOFF_BASE_RANGE :: "real \<times> real"
  FIRST_RETRY_INSTANT :: bool

text \<open>
  The collaborators of the task, as the answers they give: the file system, the MOSS
  client (for the attempt with index \<open>i\<close>, counted from 0: the callbacks
  \<^verbatim>\<open>generate_url\<close> fires, in order, and then the URL it returns or the exception it
  raises; the report \<^verbatim>\<open>generate_report\<close> returns or the exception it raises), the
  load prober, the URL check, the scheduler \<^verbatim>\<open>retry\<close> (the finite sequence of pairs
  it yields for its five arguments) and the database (whether the write operation \<open>op\<close>,
  attempted as the \<open>n\<close>-th one, raises). The file system, the prober, the logger and the
  reads of the database answer without raising, apart from \<^verbatim>\<open>DoesNotExist\<close> for a
  missing job; the clock moves only while the task sleeps.
\<close>

record env =
  os_path_isdir :: "string \<Rightarrow> bool"
  os_listdir :: "string \<Rightarrow> string list"
  os_path_getsize :: "string \<Rightarrow> nat"
  moss_generate_url :: "nat \<Rightarrow> callback list \<times> (exn + string)"
  moss_generate_report :: "nat \<Rightarrow> string option \<Rightarrow> exn + Result"
  pinger_determine_load :: "nat \<Rightarrow> LoadStatus \<times> real \<times> real"
  is_valid_moss_url :: "string option \<Rightarrow> bool"
  retry :: "real \<Rightarrow> real \<Rightarrow> real \<times> real \<Rightarrow> real \<Rightarrow> bool \<Rightarrow> (nat \<times> real) list"
  db_fault :: "nat \<Rightarrow> db_op \<Rightarrow> bool"

text \<open>The local variables of \<^verbatim>\<open>process_job\<close>.\<close>

record locals =
  l_job :: job
  l_paths :: "(string \<times> string list) list"
  l_num_attempts :: nat
  l_url :: "string option"
  l_result :: "Result option"
  l_error :: "exn option"

type_synonym st = "locals \<times> world"

section \<open>Statements that may raise\<close>

text \<open>
  A statement takes the locals and the world and returns them updated, together with
  its value or the exception it raised.
\<close>

definition returnE :: "'a \<Rightarrow> st \<Rightarrow> (exn + 'a) \<times> st" where
  "returnE x s = (Inr x, s)"

definition raiseE :: "exn \<Rightarrow> st \<Rightarrow> (exn + 'a) \<times> st" where
  "raiseE e s = (Inl e, s)"

definition bindE ::
  "(st \<Rightarrow> (exn + 'a) \<times> st) \<Rightarrow> ('a \<Rightarrow> st \<Rightarrow> (exn + 'b) \<times> st) \<Rightarrow> st \<Rightarrow> (exn + 'b) \<times> st" where
  "bindE m f s = (case m s of (Inl e, s') \<Rightarrow> (Inl e, s') | (Inr x, s') \<Rightarrow> f x s')"

definition logger :: "log_level \<Rightarrow> message \<Rightarrow> st \<Rightarrow> (exn + unit) \<times> st" where
  "logger lvl msg s = (Inr (), (fst s, (snd s)\<lparr>logged := logged (snd s) @ [(lvl, msg)]\<rparr>))"

definition set_status :: "status \<Rightarrow> st \<Rightarrow> (exn + unit) \<times> st" where
  "set_status v s = (Inr (), ((fst s)\<lparr>l_job := (l_job (fst s))\<lparr>status := v\<rparr>\<rparr>, snd s))"

definition db_write :: "env \<Rightarrow> db_op \<Rightarrow> (world \<Rightarrow> world) \<Rightarrow> st \<Rightarrow> (exn + unit) \<times> st" where
  "db_write E op eff s =
     (let w = snd s; w1 = w\<lparr>db_ops := Suc (db_ops w)\<rparr>
      in if db_fault E (db_ops w) op then (Inl DatabaseError, (fst s, w1))
         else (Inr (), (fst s, eff w1)))"

definition job_save :: "env \<Rightarrow> st \<Rightarrow> (exn + unit) \<times> st" where
  "job_save E s =
     (let j = l_job (fst s)
      in db_write E (SaveJob j) (\<lambda>w. w\<lparr>jobs := (jobs w)(job_id j \<mapsto> j)\<rparr>) s)"

definition JobEvent_create ::
  "env \<Rightarrow> event_type \<Rightarrow> message option \<Rightarrow> st \<Rightarrow> (exn + unit) \<times> st" where
  "JobEvent_create E ty msg s =
     (let e = \<lparr>ev_job = job_id (l_job (fst s)), ev_type = ty, ev_message = msg\<rparr>
      in db_write E (CreateEvent e) (\<lambda>w. w\<lparr>events := events w @ [e]\<rparr>) s)"

definition contact :: "service_call \<Rightarrow> st \<Rightarrow> (exn + unit) \<times> st" where
  "contact c s = (Inr (), (fst s, (snd s)\<lparr>contacts := contacts (snd s) @ [c]\<rparr>))"

definition time_sleep :: "real \<Rightarrow> st \<Rightarrow> (exn + unit) \<times> st" where
  "time_sleep t s =
     (if t < 0 then (Inl ValueError, s)
      else (Inr (), (fst s, (snd s)\<lparr>clock := clock (snd s) + t\<rparr>)))"

section \<open>Collecting the submitted files (lines 71 to 86)\<close>

text \<open>
  \<^verbatim>\<open>os.path.join\<close> of two components: an absolute second component stands alone, and
  no separator is added to an empty first component or after one that ends with the
  separator.
\<close>

definition os_path_join :: "string \<Rightarrow> string \<Rightarrow> string" where
  "os_path_join a b =
     (if b \<noteq> [] \<and> hd b = CHR ''/'' then b
      else if a = [] \<or> last a = CHR ''/'' then a @ b
      else a @ ''/'' @ b)"

definition collect_paths :: "settings \<Rightarrow> env \<Rightarrow> string \<Rightarrow> (string \<times> string list) list" where
  "collect_paths S E jid =
     (let base_dir = JOB_UPLOAD_TEMPLATE S jid
      in fold (\<lambda>file_type paths.
               let path = os_path_join base_dir file_type
               in if \<not> os_path_isdir E path then paths
                  else AList.update file_type
                         (filter (\<lambda>file_path. 0 < os_path_getsize E file_path)
                            (map (os_path_join path) (os_listdir E path)))
                         paths)
           (SUBMISSION_TYPES S) [])"

text \<open>\<^verbatim>\<open>not paths.get(FILES_NAME)\<close>: the key is missing or its list is empty.\<close>

definition no_files :: "settings \<Rightarrow> (string \<times> string list) list \<Rightarrow> bool" where
  "no_files S paths = (case map_of paths (FILES_NAME S) of None \<Rightarrow> True | Some fs \<Rightarrow> fs = [])"

section \<open>One attempt (lines 102 to 149)\<close>

definition run_callback :: "env \<Rightarrow> callback \<Rightarrow> st \<Rightarrow> (exn + unit) \<times> st" where
  "run_callback E cb =
     (case cb of
        on_upload_start \<Rightarrow>
          JobEvent_create E UPLOADING_EVENT (Some [Str ''Started uploading files to MOSS''])
      | on_upload_finish \<Rightarrow>
          JobEvent_create E UPLOADING_EVENT (Some [Str ''Finished uploading''])
      | on_processing_start \<Rightarrow>
          bindE (set_status PROCESSING_STATUS) (\<lambda>_.
          bindE (job_save E) (\<lambda>_.
          JobEvent_create E PROCESSING_EVENT (Some [Str ''Started generating similarity report''])))
      | on_processing_finish \<Rightarrow>
          JobEvent_create E PROCESSING_EVENT (Some [Str ''Finished processing'']))"

fun run_callbacks :: "env \<Rightarrow> callback list \<Rightarrow> st \<Rightarrow> (exn + unit) \<times> st" where
  "run_callbacks E [] = returnE ()"
| "run_callbacks E (cb # cbs) = bindE (run_callback E cb) (\<lambda>_. run_callbacks E cbs)"

text \<open>
  \<^verbatim>\<open>MOSS.generate_url\<close>: the arguments are evaluated first (the language lookup raises
  \<^verbatim>\<open>KeyError\<close> on an unknown language), the call is a contact with the service, the
  callbacks it fires run in the task, and an exception raised in a callback leaves the
  call.
\<close>

definition MOSS_generate_url :: "settings \<Rightarrow> env \<Rightarrow> nat \<Rightarrow> st \<Rightarrow> (exn + string) \<times> st" where
  "MOSS_generate_url S E i s =
     (let j = l_job (fst s)
      in case SUPPORTED_LANGUAGES S (language j) of
           None \<Rightarrow> (Inl KeyError, s)
         | Some lang \<Rightarrow>
             bindE (contact (GenerateUrl (moss_id j) (snd lang) (l_paths (fst s))
                               (max_until_ignored j) (max_displayed_matches j))) (\<lambda>_.
             bindE (run_callbacks E (fst (moss_generate_url E i))) (\<lambda>_.
             (case snd (moss_generate_url E i) of
                Inl e \<Rightarrow> raiseE e
              | Inr u \<Rightarrow> returnE u))) s)"

definition MOSS_generate_report :: "env \<Rightarrow> nat \<Rightarrow> st \<Rightarrow> (exn + Result) \<times> st" where
  "MOSS_generate_report E i s =
     bindE (contact (GenerateReport (l_url (fst s)))) (\<lambda>_.
       (case moss_generate_report E i (l_url (fst s)) of
          Inl e \<Rightarrow> raiseE e
        | Inr r \<Rightarrow> returnE r)) s"

definition upload :: "settings \<Rightarrow> env \<Rightarrow> nat \<Rightarrow> st \<Rightarrow> (exn + unit) \<times> st" where
  "upload S E i =
     bindE (set_status UPLOADING_STATUS) (\<lambda>_.
     bindE (job_save E) (\<lambda>_.
     bindE (MOSS_generate_url S E i) (\<lambda>u.
     bindE (\<lambda>s. (Inr (), ((fst s)\<lparr>l_url := Some u\<rparr>, snd s))) (\<lambda>_.
     logger LOG_INFO [Str (''Generated url: '' @ [CHR 0x22] @ u @ [CHR 0x22])]))))"

definition parse :: "env \<Rightarrow> nat \<Rightarrow> st \<Rightarrow> (exn + unit) \<times> st" where
  "parse E i =
     bindE (logger LOG_INFO [Str ''Start parsing report'']) (\<lambda>_.
     bindE (set_status PARSING_STATUS) (\<lambda>_.
     bindE (job_save E) (\<lambda>_.
     bindE (JobEvent_create E PARSING_EVENT (Some [Str ''Start parsing report''])) (\<lambda>_.
     bindE (MOSS_generate_report E i) (\<lambda>r.
     bindE (\<lambda>s. (Inr (), ((fst s)\<lparr>l_result := Some r\<rparr>, snd s))) (\<lambda>_.
     bindE (logger LOG_INFO [Str ''Result finished parsing: '', Num (length (res_matches r)),
                             Str '' matches detected.'']) (\<lambda>_.
     JobEvent_create E PARSING_EVENT
       (Some [Str ''Result finished parsing: '', Num (length (res_matches r)),
              Str '' matches detected.'']))))))))"

text \<open>Lines 104 to 134: the upload happens only while no valid URL is at hand.\<close>

definition upload_if_needed :: "settings \<Rightarrow> env \<Rightarrow> nat \<Rightarrow> st \<Rightarrow> (exn + unit) \<times> st" where
  "upload_if_needed S E i s =
     (if \<not> is_valid_moss_url E (l_url (fst s)) then upload S E i s else returnE () s)"

text \<open>The body of the \<^verbatim>\<open>try\<close>: \<open>Inr ()\<close> is reaching the \<^verbatim>\<open>break\<close> of line 149.\<close>

definition try_block :: "settings \<Rightarrow> env \<Rightarrow> nat \<Rightarrow> st \<Rightarrow> (exn + unit) \<times> st" where
  "try_block S E i =
     bindE (\<lambda>s. (Inr (), ((fst s)\<lparr>l_error := None\<rparr>, snd s))) (\<lambda>_.
     bindE (upload_if_needed S E i) (\<lambda>_.
     parse E i))"

section \<open>The attempt loop (lines 99 to 189)\<close>

datatype control = Break | Continue

text \<open>Lines 183 to 189: reached only when no handler left the loop.\<close>

definition retry_message :: "nat \<Rightarrow> exn option \<Rightarrow> real \<Rightarrow> message" where
  "retry_message attempt error time_to_sleep =
     [Str ''(Attempt '', Num attempt, Str '') Error: '', Exc error,
      Str '' | Retrying in '', Secs time_to_sleep, Str '' seconds'']"

definition retry_tail :: "env \<Rightarrow> nat \<Rightarrow> real \<Rightarrow> st \<Rightarrow> (exn + control) \<times> st" where
  "retry_tail E attempt time_to_sleep s =
     (let msg = retry_message attempt (l_error (fst s)) time_to_sleep
      in bindE (logger LOG_WARNING msg) (\<lambda>_.
         bindE (JobEvent_create E RETRY_EVENT (Some msg)) (\<lambda>_.
         bindE (time_sleep time_to_sleep) (\<lambda>_.
         returnE Continue))) s)"

text \<open>The handlers, in the order of the \<^verbatim>\<open>except\<close> clauses.\<close>

definition handler ::
  "env \<Rightarrow> nat \<Rightarrow> nat \<Rightarrow> real \<Rightarrow> exn \<Rightarrow> st \<Rightarrow> (exn + control) \<times> st" where
  "handler E i attempt time_to_sleep e s =
     (if e = RecoverableMossException \<or> e = socket_error then
        retry_tail E attempt time_to_sleep ((fst s)\<lparr>l_error := Some e\<rparr>, snd s)
      else if e = EmptyResponse then
        (let s1 = ((fst s)\<lparr>l_error := Some e\<rparr>, snd s);
             load = pinger_determine_load E i;
             load_status = fst load; ping = fst (snd load); average_ping = snd (snd load);
             jid = job_id (l_job (fst s))
         in bindE (contact DetermineLoad) (\<lambda>_.
            if load_status = NORMAL then
              bindE (logger LOG_DEBUG
                       [Str ''Moss is not under load ('', Secs ping, Str '' vs. '',
                        Secs average_ping, Str '') - job ('', Str jid,
                        Str '') will never finish'']) (\<lambda>_.
              returnE Break)
            else
              bindE (logger LOG_DEBUG
                       (if load_status = UNDER_LOAD
                        then [Str ''Moss is under load ('', Secs ping, Str '' vs. '',
                              Secs average_ping, Str ''), retrying job ('', Str jid, Str '')'']
                        else [Str ''Moss is down ('', Secs ping, Str '' vs. '',
                              Secs average_ping, Str ''), retrying job ('', Str jid, Str '')''])) (\<lambda>_.
              retry_tail E attempt time_to_sleep)) s1)
      else if e = FatalMossException then returnE Break s
      else
        bindE (logger LOG_ERROR [Str ''Unknown error: '', Exc (Some e)]) (\<lambda>_.
        returnE Break) s)"

definition iteration ::
  "settings \<Rightarrow> env \<Rightarrow> nat \<Rightarrow> nat \<Rightarrow> real \<Rightarrow> st \<Rightarrow> (exn + control) \<times> st" where
  "iteration S E i attempt time_to_sleep s =
     (case try_block S E i ((fst s)\<lparr>l_num_attempts := attempt\<rparr>, snd s) of
        (Inr u, s1) \<Rightarrow> (Inr Break, s1)
      | (Inl e, s1) \<Rightarrow> handler E i attempt time_to_sleep e s1)"

fun attempts_loop ::
  "settings \<Rightarrow> env \<Rightarrow> nat \<Rightarrow> (nat \<times> real) list \<Rightarrow> st \<Rightarrow> (exn + unit) \<times> st" where
  "attempts_loop S E i [] s = (Inr (), s)"
| "attempts_loop S E i ((attempt, time_to_sleep) # rest) s =
     (case iteration S E i attempt time_to_sleep s of
        (Inl e, s1) \<Rightarrow> (Inl e, s1)
      | (Inr Break, s1) \<Rightarrow> (Inr (), s1)
      | (Inr Continue, s1) \<Rightarrow> attempts_loop S E (Suc i) rest s1)"

section \<open>Finalization (lines 191 to 254)\<close>

definition Submission_filter_first :: "world \<Rightarrow> string \<Rightarrow> string \<Rightarrow> submission option" where
  "Submission_filter_first w jid sid =
     (case filter (\<lambda>x. sub_job x = jid \<and> submission_id x = sid) (submissions w) of
        [] \<Rightarrow> None
      | x # _ \<Rightarrow> Some x)"

definition Match_create :: "env \<Rightarrow> match_record \<Rightarrow> st \<Rightarrow> (exn + unit) \<times> st" where
  "Match_create E r = db_write E (CreateMatch r) (\<lambda>w. w\<lparr>matches := matches w @ [r]\<rparr>)"

definition MOSSResult_create :: "env \<Rightarrow> moss_result \<Rightarrow> st \<Rightarrow> (exn + moss_result) \<times> st" where
  "MOSSResult_create E r =
     bindE (db_write E (CreateMossResult r) (\<lambda>w. w\<lparr>moss_results := moss_results w @ [r]\<rparr>))
       (\<lambda>_. returnE r)"

text \<open>The row that \<^verbatim>\<open>Match.objects.create\<close> is given (lines 216 to 224).\<close>

definition new_match :: "moss_result \<Rightarrow> submission \<Rightarrow> submission \<Rightarrow> raw_match \<Rightarrow> match_record" where
  "new_match mr a b m =
     \<lparr>m_moss_result = mr, first_submission = a, second_submission = b,
      first_percentage = percentage_1 m, second_percentage = percentage_2 m,
      m_lines_matched = lines_matched m, m_line_matches = line_matches m\<rparr>"

fun create_matches :: "env \<Rightarrow> moss_result \<Rightarrow> raw_match list \<Rightarrow> st \<Rightarrow> (exn + unit) \<times> st" where
  "create_matches E mr [] = returnE ()"
| "create_matches E mr (m # ms) =
     bindE (\<lambda>s.
        (let jid = job_id (l_job (fst s));
             first = Submission_filter_first (snd s) jid (name_1 m);
             second = Submission_filter_first (snd s) jid (name_2 m)
         in case (first, second) of
              (Some a, Some b) \<Rightarrow> Match_create E (new_match mr a b m) s
            | _ \<Rightarrow> returnE () s))
       (\<lambda>_. create_matches E mr ms)"

text \<open>The body of the final \<^verbatim>\<open>try\<close> (lines 197 to 228); its value is what is returned.\<close>

definition final_try :: "env \<Rightarrow> st \<Rightarrow> (exn + string option) \<times> st" where
  "final_try E s =
     (case l_result (fst s) of
        None \<Rightarrow>
          bindE (set_status FAILED_STATUS) (\<lambda>_.
          bindE (JobEvent_create E FAILED_EVENT None) (\<lambda>_.
          returnE None)) s
      | Some result \<Rightarrow>
          bindE (MOSSResult_create E
                   \<lparr>mr_job = job_id (l_job (fst s)), mr_url = res_url result\<rparr>) (\<lambda>mr.
          bindE (create_matches E mr (res_matches result)) (\<lambda>_.
          bindE (JobEvent_create E COMPLETED_EVENT None) (\<lambda>_.
          bindE (set_status COMPLETED_STATUS) (\<lambda>_.
          returnE (Some (res_url result)))))) s)"

text \<open>
  The diagnostics of the \<^verbatim>\<open>finally\<close> block under \<^verbatim>\<open>DEBUG\<close> (lines 233 to 254):
  a probe of the service and one line of job data, written to the logger and appended to
  \<^verbatim>\<open>jobs.log\<close>. The line is kept as its label and the number of attempts; the list
  of files is not empty here, so the average size is defined. The block changes neither
  the database nor the local variables.
\<close>

definition debug_block :: "settings \<Rightarrow> st \<Rightarrow> st" where
  "debug_block S s =
     (if DEBUG S then
        (fst s, (snd s)\<lparr>contacts := contacts (snd s) @ [Ping],
                        logged := logged (snd s)
                          @ [(LOG_DEBUG, [Str ''Job info: '', Num (l_num_attempts (fst s))])]\<rparr>)
      else s)"

text \<open>
  The \<^verbatim>\<open>finally\<close> clause runs whatever the body did; an exception of its own
  \<^verbatim>\<open>job.save()\<close> replaces the outcome of the body.
\<close>

definition finalize :: "settings \<Rightarrow> env \<Rightarrow> st \<Rightarrow> (exn + string option) \<times> st" where
  "finalize S E s =
     (let s1 = ((fst s)\<lparr>l_job := (l_job (fst s))\<lparr>completion_date := Some (clock (snd s))\<rparr>\<rparr>, snd s)
      in case final_try E s1 of
           (r, s2) \<Rightarrow>
             (case job_save E s2 of
                (Inl e, s3) \<Rightarrow> (Inl e, s3)
              | (Inr u, s3) \<Rightarrow> (r, debug_block S s3)))"

section \<open>The task\<close>

text \<open>The locals when the loop is entered (lines 68 to 97).\<close>

definition initial_locals :: "settings \<Rightarrow> env \<Rightarrow> job \<Rightarrow> world \<Rightarrow> locals" where
  "initial_locals S E j w =
     \<lparr>l_job = j\<lparr>start_date := Some (clock w)\<rparr>,
      l_paths = collect_paths S E (job_id j),
      l_num_attempts = 0, l_url = None, l_result = None, l_error = None\<rparr>"

definition started :: "settings \<Rightarrow> env \<Rightarrow> job \<Rightarrow> world \<Rightarrow> st" where
  "started S E j w =
     (initial_locals S E j w,
      w\<lparr>logged := logged w @ [(LOG_INFO, [Str ''Starting job '', Str (job_id j),
                                          Str '' with status '', Stat (status j)])]\<rparr>)"

definition schedule :: "settings \<Rightarrow> env \<Rightarrow> (nat \<times> real) list" where
  "schedule S E =
     retry E (MIN_RETRY_TIME S) (MAX_RETRY_TIME S) (EXPONENTIAL_BACKOFF_BASE_RANGE S)
       (MAX_RETRY_DURATION S) (FIRST_RETRY_INSTANT S)"

text \<open>
  \<^verbatim>\<open>Job.objects.get(job_id=job_id)\<close>: the row whose \<open>job_id\<close> column is the one
  asked for, or \<^verbatim>\<open>DoesNotExist\<close>.
\<close>

definition Job_objects_get :: "world \<Rightarrow> string \<Rightarrow> exn + job" where
  "Job_objects_get w jid =
     (case jobs w jid of
        None \<Rightarrow> Inl DoesNotExist
      | Some j \<Rightarrow> if job_id j = jid then Inr j else Inl DoesNotExist)"

definition process_job :: "settings \<Rightarrow> env \<Rightarrow> string \<Rightarrow> world \<Rightarrow> (exn + string option) \<times> world" where
  "process_job S E jid w =
     (case Job_objects_get w jid of
        Inl e \<Rightarrow> (Inl e, w)
      | Inr j \<Rightarrow>
          if status j \<noteq> INQUEUE_STATUS then (Inr None, w)
          else
            (let s = started S E j w
             in if no_files S (l_paths (fst s)) then
                  (case bindE (set_status FAILED_STATUS) (\<lambda>_.
                        bindE (job_save E) (\<lambda>_.
                        bindE (JobEvent_create E FAILED_EVENT (Some [Str ''No files supplied''])) (\<lambda>_.
                        returnE None))) s of
                     (r, s1) \<Rightarrow> (r, snd s1))
                else
                  (case attempts_loop S E 0 (schedule S E) s of
                     (Inl e, s1) \<Rightarrow> (Inl e, snd s1)
                   | (Inr u, s1) \<Rightarrow>
                       (case finalize S E s1 of (r, s2) \<Rightarrow> (r, snd s2)))))"

section \<open>Observations of a run\<close>

definition count_events :: "event_type \<Rightarrow> job_event list \<Rightarrow> nat" where
  "count_events ty es = length (filter (\<lambda>e. ev_type e = ty) es)"

definition no_db_fault :: "env \<Rightarrow> bool" where
  "no_db_fault E = (\<forall>n op. \<not> db_fault E n op)"

text \<open>
  How each attempt of the loop ended: the exception its \<^verbatim>\<open>try\<close> body raised, or
  \<open>None\<close> when the body reached the \<^verbatim>\<open>break\<close> of line 149. The list follows the
  loop and stops where the loop stops.
\<close>

fun attempt_errors ::
  "settings \<Rightarrow> env \<Rightarrow> nat \<Rightarrow> (nat \<times> real) list \<Rightarrow> st \<Rightarrow> exn option list" where
  "attempt_errors S E i [] s = []"
| "attempt_errors S E i ((attempt, time_to_sleep) # rest) s =
     (case fst (try_block S E i ((fst s)\<lparr>l_num_attempts := attempt\<rparr>, snd s)) of
        Inl e \<Rightarrow> Some e
      | Inr u \<Rightarrow> None)
     # (case iteration S E i attempt time_to_sleep s of
          (Inr Continue, s1) \<Rightarrow> attempt_errors S E (Suc i) rest s1
        | _ \<Rightarrow> [])"



text \<open>
  Modelled from the spec: what \<^verbatim>\<open>MOSS.generate_report\<close> of
  \<^verbatim>\<open>automoss/apps/moss/moss.py\<close> returns, whose source is not among the files. The spec
  has the comparison result requested for the service-session URL (section 4.1) and a
  \<^verbatim>\<open>Result\<close> made of the service-session URL and the raw matches (sections 3 and 4.5):
  the report returned for a URL carries that URL.
\<close>

definition report_carries_url :: "env \<Rightarrow> bool" where
  "report_carries_url E =
     (\<forall>i u res. moss_generate_report E i u = Inr res \<longrightarrow> u = Some (res_url res))"

section \<open>The backoff scheduler\<close>

text \<open>
  Modelled from the spec: the scheduler \<^verbatim>\<open>retry\<close> of \<^verbatim>\<open>automoss/apps/utils/core.py\<close>,
  which \<^verbatim>\<open>process_job\<close> imports and whose source is not among the files. The spec
  (section 4.2) has it yield pairs of an attempt number, counted from 1, and a wait: the
  first wait is zero when the first attempt fires instantly and the minimal delay
  otherwise; each later wait grows from the one before it by a factor drawn from the base
  range and is clamped to the interval from the minimal to the maximal delay; and the
  sequence ends as soon as the waits taken so far, plus the next one, would exceed the total
  duration. The random draws are an argument: \<open>draw n\<close> is the number between 0 and 1 that
  picks the factor of attempt \<open>n\<close> within the base range. Times are real numbers.
\<close>

definition clamp :: "real \<Rightarrow> real \<Rightarrow> real \<Rightarrow> real" where
  "clamp lo hi x = max lo (min hi x)"

definition next_delay :: "real \<Rightarrow> real \<Rightarrow> real \<times> real \<Rightarrow> (nat \<Rightarrow> real) \<Rightarrow> nat \<Rightarrow> real \<Rightarrow> real" where
  "next_delay min_time max_time base_range draw attempt previous =
     clamp min_time max_time
       (previous * (fst base_range + (snd base_range - fst base_range) * draw attempt))"

text \<open>
  The generator from the attempt \<open>attempt\<close> on, as the list of all it yields; \<open>None\<close>
  would be a generator that never ends.
\<close>

partial_function (option) retry_from ::
  "real \<Rightarrow> real \<Rightarrow> real \<times> real \<Rightarrow> real \<Rightarrow> (nat \<Rightarrow> real) \<Rightarrow> nat \<Rightarrow> real \<Rightarrow> real
     \<Rightarrow> (nat \<times> real) list option" where
  "retry_from min_time max_time base_range max_duration draw attempt wait elapsed =
     (if elapsed + wait > max_duration then Some []
      else Option.bind
             (retry_from min_time max_time base_range max_duration draw (Suc attempt)
                (next_delay min_time max_time base_range draw (Suc attempt) wait)
                (elapsed + wait))
             (\<lambda>rest. Some ((attempt, wait) # rest)))"

definition first_delay :: "real \<Rightarrow> bool \<Rightarrow> real" where
  "first_delay min_time first_instant = (if first_instant then 0 else min_time)"

definition retry_spec ::
  "real \<Rightarrow> real \<Rightarrow> real \<times> real \<Rightarrow> real \<Rightarrow> bool \<Rightarrow> (nat \<Rightarrow> real) \<Rightarrow> (nat \<times> real) list option" where
  "retry_spec min_time max_time base_range max_duration first_instant draw =
     retry_from min_time max_time base_range max_duration draw 1
       (first_delay min_time first_instant) 0"

text \<open>The wait computed for the \<open>k\<close>-th pair after the current one, yielded or not.\<close>

fun waits_from ::
  "real \<Rightarrow> real \<Rightarrow> real \<times> real \<Rightarrow> (nat \<Rightarrow> real) \<Rightarrow> nat \<Rightarrow> real \<Rightarrow> nat \<Rightarrow> real" where
  "waits_from min_time max_time base_range draw attempt wait 0 = wait"
| "waits_from min_time max_time base_range draw attempt wait (Suc k) =
     waits_from min_time max_time base_range draw (Suc attempt)
       (next_delay min_time max_time base_range draw (Suc attempt) wait) k"

section \<open>Example data\<close>

definition ex_settings :: settings where
  "ex_settings =
     \<lparr>SUBMISSION_TYPES = [''files'', ''base_files''], FILES_NAME = ''files'',
      SUPPORTED_LANGUAGES = [''PY'' \<mapsto> (''Python'', ''python'')],
      JOB_UPLOAD_TEMPLATE = (\<lambda>jid. ''media/'' @ jid @ ''/uploads''),
      DEBUG = False, MIN_RETRY_TIME = 32, MAX_RETRY_TIME = 256, MAX_RETRY_DURATION = 600,
      EXPONENTIAL_BACKOFF_BASE_RANGE = (3 / 2, 5 / 2), FIRST_RETRY_INSTANT = True\<rparr>"

definition ex_job :: job where
  "ex_job =
     \<lparr>job_id = ''j1'', status = INQUEUE_STATUS, language = ''PY'', max_until_ignored = 10,
      max_displayed_matches = 250, moss_id = 7, start_date = None, completion_date = None\<rparr>"

definition ex_world :: world where
  "ex_world =
     \<lparr>jobs = [''j1'' \<mapsto> ex_job],
      submissions = [\<lparr>sub_job = ''j1'', submission_id = ''a'', sub_name = ''a.py''\<rparr>,
                     \<lparr>sub_job = ''j1'', submission_id = ''b'', sub_name = ''b.py''\<rparr>,
                     \<lparr>sub_job = ''j2'', submission_id = ''c'', sub_name = ''c.py''\<rparr>],
      events = [\<lparr>ev_job = ''j1'', ev_type = INQUEUE_EVENT,
                 ev_message = Some [Str ''Placed in the processing queue'']\<rparr>],
      moss_results = [], matches = [], logged = [], contacts = [], clock = 100, db_ops = 0\<rparr>"

definition ex_result :: Result where
  "ex_result =
     \<lparr>res_url = ''http://moss.stanford.edu/results/1/23'',
      res_matches =
        [\<lparr>name_1 = ''a'', name_2 = ''b'', percentage_1 = 90, percentage_2 = 80,
          lines_matched = 12, line_matches = [((1, 5), (2, 6))]\<rparr>,
         \<lparr>name_1 = ''a'', name_2 = ''c'', percentage_1 = 10, percentage_2 = 20,
          lines_matched = 3, line_matches = []\<rparr>]\<rparr>"

text \<open>
  A service that drops the connection during the first two uploads and answers from
  the third attempt on; a directory with two files and an empty one.
\<close>

definition ex_env :: env where
  "ex_env =
     \<lparr>os_path_isdir = (\<lambda>p. p = ''media/j1/uploads/files''),
      os_listdir = (\<lambda>p. if p = ''media/j1/uploads/files''
                          then [''a.py'', ''b.py'', ''empty.py''] else []),
      os_path_getsize = (\<lambda>p. if p = ''media/j1/uploads/files/empty.py'' then 0 else 120),
      moss_generate_url =
        (\<lambda>i. if i < 2 then ([on_upload_start], Inl socket_error)
              else ([on_upload_start, on_upload_finish, on_processing_start,
                     on_processing_finish], Inr ''http://moss.stanford.edu/results/1/23'')),
      moss_generate_report =
        (\<lambda>i u. if u = Some ''http://moss.stanford.edu/results/1/23'' then Inr ex_result
               else Inl FatalMossException),
      pinger_determine_load = (\<lambda>i. (NORMAL, 1, 1)),
      is_valid_moss_url = (\<lambda>u. u \<noteq> None),
      retry = (\<lambda>a b c d e. [(1, 0), (2, 32), (3, 64), (4, 128)]),
      db_fault = (\<lambda>n op. False)\<rparr>"

text \<open>
  A service whose first call raises the given exception after the upload has started,
  probed at the given load; a database that refuses every match record; and the state
  after a first attempt that succeeded.
\<close>

definition ex_env_raising :: "exn \<Rightarrow> LoadStatus \<Rightarrow> env" where
  "ex_env_raising e load =
     ex_env\<lparr>moss_generate_url := (\<lambda>i. ([on_upload_start], Inl e)),
            pinger_determine_load := (\<lambda>i. (load, 3, 1))\<rparr>"






definition ex_parsed :: st where
  "ex_parsed =
     (\<lparr>l_job = ex_job\<lparr>status := PARSING_STATUS, start_date := Some 100\<rparr>,
       l_paths = [(''files'', [''media/j1/uploads/files/a.py'', ''media/j1/uploads/files/b.py''])],
       l_num_attempts = 1, l_url = Some ''http://moss.stanford.edu/results/1/23'',
       l_result = Some ex_result, l_error = None\<rparr>,
      ex_world)"

section \<open>Notions for the proofs\<close>

text \<open>
  A statement preserves a relation when its final state is related to its initial state,
  whether it returns or raises.
\<close>

definition preserves :: "(st \<Rightarrow> st \<Rightarrow> bool) \<Rightarrow> (st \<Rightarrow> 'r \<times> st) \<Rightarrow> bool" where
  "preserves R m \<longleftrightarrow> (\<forall>s. R s (snd (m s)))"

text \<open>
  The event table has only grown, by events of the kinds \<open>T\<close>, and \<open>job\<close> is still
  the same job.
\<close>

definition grows :: "event_type set \<Rightarrow> st \<Rightarrow> st \<Rightarrow> bool" where
  "grows T s s' \<longleftrightarrow>
     (\<exists>es. events (snd s') = events (snd s) @ es \<and> (\<forall>e\<in>set es. ev_type e \<in> T))
     \<and> job_id (l_job (fst s')) = job_id (l_job (fst s))"


text \<open>The part \<open>f\<close> of the local variables is as it was.\<close>

definition unchanged :: "(locals \<Rightarrow> 'a) \<Rightarrow> st \<Rightarrow> st \<Rightarrow> bool" where
  "unchanged f s s' \<longleftrightarrow> f (fst s') = f (fst s)"

text \<open>The number of events of one kind in the event table.\<close>

definition cnt :: "event_type \<Rightarrow> st \<Rightarrow> nat" where
  "cnt ty s = count_events ty (events (snd s))"

text \<open>The match records of a list of raw matches, in closed form.\<close>

definition resolved_matches :: "world \<Rightarrow> string \<Rightarrow> moss_result \<Rightarrow> raw_match list \<Rightarrow> match_record list" where
  "resolved_matches w jid mr ms =
     concat (map (\<lambda>m. case (Submission_filter_first w jid (name_1 m),
                              Submission_filter_first w jid (name_2 m)) of
                         (Some a, Some b) \<Rightarrow> [new_match mr a b m]
                       | _ \<Rightarrow> []) ms)"

text \<open>
  In the words of the spec: an identifier resolves when some submission of the job bears
  it (section 4.5: lookup by identifier, within this job only).
\<close>

definition resolves :: "world \<Rightarrow> string \<Rightarrow> string \<Rightarrow> bool" where
  "resolves w jid sid \<longleftrightarrow> (\<exists>x\<in>set (submissions w). sub_job x = jid \<and> submission_id x = sid)"

text \<open>A match record read back as the raw match it was made from.\<close>

definition raw_of :: "match_record \<Rightarrow> raw_match" where
  "raw_of r =
     \<lparr>name_1 = submission_id (first_submission r), name_2 = submission_id (second_submission r),
      percentage_1 = first_percentage r, percentage_2 = second_percentage r,
      lines_matched = m_lines_matched r, line_matches = m_line_matches r\<rparr>"


lemmas model_defs =
  process_job_def Job_objects_get_def started_def initial_locals_def collect_paths_def
  os_path_join_def no_files_def schedule_def iteration_def try_block_def upload_if_needed_def
  upload_def parse_def retry_message_def new_match_def
  bindE_def returnE_def raiseE_def MOSS_generate_url_def MOSS_generate_report_def
  run_callback_def contact_def logger_def set_status_def job_save_def db_write_def
  JobEvent_create_def handler_def retry_tail_def time_sleep_def finalize_def final_try_def
  debug_block_def MOSSResult_create_def Match_create_def Submission_filter_first_def
  count_events_def no_db_fault_def Let_def

lemmas ex_defs = ex_settings_def ex_job_def ex_world_def ex_result_def ex_env_def

section \<open>What the statements may change\<close>

lemma grows_refl: "grows T s s"
  by (simp add: grows_def)

lemma grows_trans: "grows T a b \<Longrightarrow> grows T b c \<Longrightarrow> grows T a c"
  by (auto simp: grows_def)

lemma grows_mono: "grows T a b \<Longrightarrow> T \<subseteq> T' \<Longrightarrow> grows T' a b"
  by (auto simp: grows_def)

lemma preservesD: "preserves R m \<Longrightarrow> R s (snd (m s))"
  unfolding preserves_def by blast

lemma preserves_mono: "preserves (grows T) m \<Longrightarrow> T \<subseteq> T' \<Longrightarrow> preserves (grows T') m"
  by (auto simp: preserves_def intro: grows_mono)

lemma preserves_bindE:
  assumes "preserves (grows T) m" and "\<And>x. preserves (grows T) (f x)"
  shows "preserves (grows T) (bindE m f)"
  unfolding preserves_def
proof
  fix s :: st
  obtain r s1 where ms: "m s = (r, s1)"
    by (metis surj_pair)
  have a: "grows T s s1"
    using preservesD [OF assms(1), of s] ms by simp
  show "grows T s (snd (bindE m f s))"
  proof (cases r)
    case (Inl e)
    then show ?thesis using ms a by (simp add: bindE_def)
  next
    case (Inr x)
    have "grows T s1 (snd (f x s1))"
      by (rule preservesD [OF assms(2)])
    then show ?thesis using ms Inr a by (auto simp: bindE_def intro: grows_trans)
  qed
qed

lemma grows_prims:
  "preserves (grows T) (returnE x)"
  "preserves (grows T) (raiseE e)"
  "preserves (grows T) (logger lvl msg)"
  "preserves (grows T) (set_status v)"
  "preserves (grows T) (contact c)"
  "preserves (grows T) (time_sleep t)"
  "preserves (grows T) (job_save E)"
  "preserves (grows T) (Match_create E r)"
  by (simp_all add: preserves_def grows_def returnE_def raiseE_def logger_def set_status_def
        contact_def time_sleep_def job_save_def db_write_def Match_create_def Let_def)

lemma grows_event: "ty \<in> T \<Longrightarrow> preserves (grows T) (JobEvent_create E ty msg)"
  by (simp add: preserves_def grows_def JobEvent_create_def db_write_def Let_def)

lemma grows_assign:
  "preserves (grows T) (\<lambda>s. (Inr (), ((fst s)\<lparr>l_url := u\<rparr>, snd s)))"
  "preserves (grows T) (\<lambda>s. (Inr (), ((fst s)\<lparr>l_result := r\<rparr>, snd s)))"
  "preserves (grows T) (\<lambda>s. (Inr (), ((fst s)\<lparr>l_error := e\<rparr>, snd s)))"
  by (simp_all add: preserves_def grows_def)

lemma grows_callback: "preserves (grows {UPLOADING_EVENT, PROCESSING_EVENT}) (run_callback E cb)"
  unfolding run_callback_def
  by (cases cb) (auto intro!: preserves_bindE grows_prims grows_event)

lemma grows_callbacks: "preserves (grows {UPLOADING_EVENT, PROCESSING_EVENT}) (run_callbacks E cbs)"
  by (induction cbs) (auto intro!: preserves_bindE grows_prims grows_callback)

lemma grows_generate_url:
  "preserves (grows {UPLOADING_EVENT, PROCESSING_EVENT}) (MOSS_generate_url S E i)"
  unfolding preserves_def
proof
  fix s :: st
  show "grows {UPLOADING_EVENT, PROCESSING_EVENT} s (snd (MOSS_generate_url S E i s))"
  proof (cases "SUPPORTED_LANGUAGES S (language (l_job (fst s)))")
    case None
    then show ?thesis by (simp add: MOSS_generate_url_def grows_refl)
  next
    case (Some lang)
    have "preserves (grows {UPLOADING_EVENT, PROCESSING_EVENT})
            (bindE (contact (GenerateUrl (moss_id (l_job (fst s))) (snd lang) (l_paths (fst s))
                               (max_until_ignored (l_job (fst s))) (max_displayed_matches (l_job (fst s))))) (\<lambda>_.
             bindE (run_callbacks E (fst (moss_generate_url E i))) (\<lambda>_.
             (case snd (moss_generate_url E i) of
                Inl e \<Rightarrow> raiseE e
              | Inr u \<Rightarrow> returnE u))))"
      by (auto intro!: preserves_bindE grows_prims grows_callbacks split: sum.split)
    from preservesD [OF this, of s] show ?thesis using Some by (simp add: MOSS_generate_url_def Let_def)
  qed
qed

lemma grows_upload: "preserves (grows {UPLOADING_EVENT, PROCESSING_EVENT}) (upload S E i)"
  unfolding upload_def
  by (intro preserves_bindE grows_prims grows_generate_url grows_assign)

lemma grows_generate_report: "preserves (grows T) (MOSS_generate_report E i)"
  unfolding preserves_def
proof
  fix s :: st
  have "preserves (grows T) (bindE (contact (GenerateReport (l_url (fst s)))) (\<lambda>_.
       (case moss_generate_report E i (l_url (fst s)) of
          Inl e \<Rightarrow> raiseE e
        | Inr r \<Rightarrow> returnE r)))"
    by (auto intro!: preserves_bindE grows_prims split: sum.split)
  from preservesD [OF this, of s] show "grows T s (snd (MOSS_generate_report E i s))"
    by (simp add: MOSS_generate_report_def)
qed

lemma grows_parse: "preserves (grows {PARSING_EVENT}) (parse E i)"
  unfolding parse_def
  by (intro preserves_bindE grows_prims grows_generate_report grows_assign grows_event) simp_all

lemma grows_upload_if_needed:
  "preserves (grows {UPLOADING_EVENT, PROCESSING_EVENT}) (upload_if_needed S E i)"
  using grows_upload [of S E i]
  by (auto simp: preserves_def upload_if_needed_def returnE_def grows_refl)

lemma grows_try_block:
  "preserves (grows {UPLOADING_EVENT, PROCESSING_EVENT, PARSING_EVENT}) (try_block S E i)"
  unfolding try_block_def
proof (intro preserves_bindE grows_assign)
  show "preserves (grows {UPLOADING_EVENT, PROCESSING_EVENT, PARSING_EVENT}) (parse E i)"
    by (rule preserves_mono [OF grows_parse]) simp
  show "preserves (grows {UPLOADING_EVENT, PROCESSING_EVENT, PARSING_EVENT}) (upload_if_needed S E i)"
    by (rule preserves_mono [OF grows_upload_if_needed]) simp
qed





lemma unchanged_bindE:
  assumes "preserves (unchanged f) m" and "\<And>x. preserves (unchanged f) (g x)"
  shows "preserves (unchanged f) (bindE m g)"
  unfolding preserves_def
proof
  fix s :: st
  obtain r s1 where ms: "m s = (r, s1)"
    by (metis surj_pair)
  have a: "unchanged f s s1"
    using preservesD [OF assms(1), of s] ms by simp
  show "unchanged f s (snd (bindE m g s))"
  proof (cases r)
    case (Inl e)
    then show ?thesis using ms a by (simp add: bindE_def)
  next
    case (Inr x)
    have "unchanged f s1 (snd (g x s1))"
      by (rule preservesD [OF assms(2)])
    then show ?thesis using ms Inr a by (simp add: bindE_def unchanged_def)
  qed
qed

lemma unchanged_prims:
  "preserves (unchanged f) (returnE x)"
  "preserves (unchanged f) (raiseE e)"
  "preserves (unchanged f) (logger lvl msg)"
  "preserves (unchanged f) (contact c)"
  "preserves (unchanged f) (time_sleep t)"
  "preserves (unchanged f) (job_save E)"
  "preserves (unchanged f) (JobEvent_create E ty m)"
  "preserves (unchanged f) (Match_create E r)"
  by (simp_all add: preserves_def unchanged_def returnE_def raiseE_def logger_def
        contact_def time_sleep_def job_save_def JobEvent_create_def db_write_def
        Match_create_def Let_def)

lemma unchanged_result_status: "preserves (unchanged l_result) (set_status v)"
  by (simp add: preserves_def unchanged_def set_status_def)

lemma unchanged_result_callbacks: "preserves (unchanged l_result) (run_callbacks E cbs)"
proof (induction cbs)
  case Nil
  show ?case by (simp add: unchanged_prims)
next
  case (Cons cb cbs)
  have "preserves (unchanged l_result) (run_callback E cb)"
    unfolding run_callback_def
    by (cases cb) (auto intro!: unchanged_bindE unchanged_prims unchanged_result_status)
  then show ?case using Cons by (auto intro!: unchanged_bindE)
qed

lemma unchanged_result_generate_url: "preserves (unchanged l_result) (MOSS_generate_url S E i)"
  unfolding preserves_def
proof
  fix s :: st
  show "unchanged l_result s (snd (MOSS_generate_url S E i s))"
  proof (cases "SUPPORTED_LANGUAGES S (language (l_job (fst s)))")
    case None
    then show ?thesis by (simp add: MOSS_generate_url_def unchanged_def)
  next
    case (Some lang)
    have "preserves (unchanged l_result)
            (bindE (contact c) (\<lambda>_.
             bindE (run_callbacks E (fst (moss_generate_url E i))) (\<lambda>_.
             (case snd (moss_generate_url E i) of
                Inl e \<Rightarrow> raiseE e
              | Inr u \<Rightarrow> returnE u))))" for c
      by (auto intro!: unchanged_bindE unchanged_prims unchanged_result_callbacks split: sum.split)
    from preservesD [OF this, of s] show ?thesis
      using Some by (simp add: MOSS_generate_url_def Let_def)
  qed
qed

lemma unchanged_result_upload: "preserves (unchanged l_result) (upload S E i)"
  unfolding upload_def
  by (intro unchanged_bindE unchanged_prims unchanged_result_status unchanged_result_generate_url)
     (simp add: preserves_def unchanged_def)

text \<open>What the parsing phase does, case by case.\<close>

lemma parse_summary:
  assumes "parse E i s = (r, s1)"
  shows "\<exists>es. events (snd s1) = events (snd s) @ es
           \<and> (\<forall>e\<in>set es. ev_type e = PARSING_EVENT)
           \<and> length es \<le> 2
           \<and> (r = Inr () \<longrightarrow> length es = 2)
           \<and> ((\<exists>e. r = Inl e) \<longrightarrow> length es \<le> 1)"
    and "r = Inr () \<longrightarrow> (\<exists>res. l_result (fst s1) = Some res
                              \<and> moss_generate_report E i (l_url (fst s)) = Inr res)"
    and "l_result (fst s1) \<noteq> l_result (fst s) \<longrightarrow>
           status (l_job (fst s1)) = PARSING_STATUS \<and> (r = Inr () \<or> r = Inl DatabaseError)"
    and "l_url (fst s1) = l_url (fst s)"
  using assms
  by (auto simp: parse_def bindE_def returnE_def raiseE_def logger_def set_status_def
        job_save_def JobEvent_create_def db_write_def MOSS_generate_report_def contact_def Let_def
      split: if_splits sum.splits)

lemma grows_cnt_same: "grows T s s' \<Longrightarrow> ty \<notin> T \<Longrightarrow> cnt ty s' = cnt ty s"
  by (auto simp: grows_def cnt_def count_events_def filter_empty_conv)

lemma grows_cnt_le: "grows T s s' \<Longrightarrow> cnt ty s \<le> cnt ty s'"
  by (auto simp: grows_def cnt_def count_events_def)

lemma try_block_split:
  "try_block S E i s =
     (case upload_if_needed S E i ((fst s)\<lparr>l_error := None\<rparr>, snd s) of
        (Inl e, s1) \<Rightarrow> (Inl e, s1)
      | (Inr u, s1) \<Rightarrow> parse E i s1)"
  by (simp add: try_block_def bindE_def upload_if_needed_def)

lemma upload_if_needed_frame:
  "grows {UPLOADING_EVENT, PROCESSING_EVENT} s (snd (upload_if_needed S E i s))"
  "l_result (fst (snd (upload_if_needed S E i s))) = l_result (fst s)"
  using preservesD [OF grows_upload_if_needed, of s S E i]
    preservesD [OF unchanged_result_upload, of s S E i]
  by (simp_all add: upload_if_needed_def returnE_def unchanged_def)

lemma try_block_summary:
  assumes "try_block S E i s = (r, s1)"
  shows "cnt PARSING_EVENT s1 \<le> cnt PARSING_EVENT s + 2"
    and "r = Inr () \<longrightarrow> cnt PARSING_EVENT s1 = cnt PARSING_EVENT s + 2"
    and "(\<exists>e. r = Inl e) \<longrightarrow> cnt PARSING_EVENT s1 \<le> cnt PARSING_EVENT s + 1"
    and "r = Inr () \<longrightarrow> (\<exists>res u. l_result (fst s1) = Some res \<and> moss_generate_report E i u = Inr res)"
    and "l_result (fst s1) \<noteq> l_result (fst s) \<longrightarrow>
           status (l_job (fst s1)) = PARSING_STATUS \<and> (r = Inr () \<or> r = Inl DatabaseError)"
proof -
  let ?s0 = "((fst s)\<lparr>l_error := None\<rparr>, snd s)"
  obtain ru su where up: "upload_if_needed S E i ?s0 = (ru, su)"
    by (metis surj_pair)
  have g: "grows {UPLOADING_EVENT, PROCESSING_EVENT} ?s0 su"
    and res: "l_result (fst su) = l_result (fst s)"
    using upload_if_needed_frame [where s = ?s0 and S = S and E = E and i = i] up by simp_all
  have c0: "cnt PARSING_EVENT su = cnt PARSING_EVENT s"
    using grows_cnt_same [OF g, of PARSING_EVENT] by (simp add: cnt_def)
  have all: "cnt PARSING_EVENT s1 \<le> cnt PARSING_EVENT s + 2
    \<and> (r = Inr () \<longrightarrow> cnt PARSING_EVENT s1 = cnt PARSING_EVENT s + 2)
    \<and> ((\<exists>e. r = Inl e) \<longrightarrow> cnt PARSING_EVENT s1 \<le> cnt PARSING_EVENT s + 1)
    \<and> (r = Inr () \<longrightarrow> (\<exists>res u. l_result (fst s1) = Some res \<and> moss_generate_report E i u = Inr res))
    \<and> (l_result (fst s1) \<noteq> l_result (fst s) \<longrightarrow>
           status (l_job (fst s1)) = PARSING_STATUS \<and> (r = Inr () \<or> r = Inl DatabaseError))"
  proof (cases ru)
    case (Inl e)
    then have "r = Inl e" "s1 = su"
      using assms up by (simp_all add: try_block_split)
    then show ?thesis using c0 res by simp
  next
    case (Inr u)
    then have p: "parse E i su = (r, s1)"
      using assms up by (simp add: try_block_split)
    from parse_summary(1) [OF p] obtain es where
      es: "events (snd s1) = events (snd su) @ es" "\<forall>e\<in>set es. ev_type e = PARSING_EVENT"
        "length es \<le> 2" "r = Inr () \<longrightarrow> length es = 2" "(\<exists>e. r = Inl e) \<longrightarrow> length es \<le> 1"
      by blast
    have "cnt PARSING_EVENT s1 = cnt PARSING_EVENT su + length es"
      using es(1,2) by (simp add: cnt_def count_events_def)
    then show ?thesis
      using es(3,4,5) c0 res parse_summary(2,3) [OF p] by auto
  qed
  show "cnt PARSING_EVENT s1 \<le> cnt PARSING_EVENT s + 2"
    and "r = Inr () \<longrightarrow> cnt PARSING_EVENT s1 = cnt PARSING_EVENT s + 2"
    and "(\<exists>e. r = Inl e) \<longrightarrow> cnt PARSING_EVENT s1 \<le> cnt PARSING_EVENT s + 1"
    and "r = Inr () \<longrightarrow> (\<exists>res u. l_result (fst s1) = Some res \<and> moss_generate_report E i u = Inr res)"
    and "l_result (fst s1) \<noteq> l_result (fst s) \<longrightarrow>
           status (l_job (fst s1)) = PARSING_STATUS \<and> (r = Inr () \<or> r = Inl DatabaseError)"
    using all by blast+
qed

text \<open>Where the URL held in \<open>url\<close> comes from.\<close>

lemma unchanged_url_status: "preserves (unchanged l_url) (set_status v)"
  by (simp add: preserves_def unchanged_def set_status_def)

lemma unchanged_url_callbacks: "preserves (unchanged l_url) (run_callbacks E cbs)"
proof (induction cbs)
  case Nil
  show ?case by (simp add: unchanged_prims)
next
  case (Cons cb cbs)
  have "preserves (unchanged l_url) (run_callback E cb)"
    unfolding run_callback_def
    by (cases cb) (auto intro!: unchanged_bindE unchanged_prims unchanged_url_status)
  then show ?case using Cons by (auto intro!: unchanged_bindE)
qed

text \<open>The URL that \<^verbatim>\<open>generate_url\<close> returns is the one the service gave in this attempt.\<close>

lemma MOSS_generate_url_result:
  assumes "MOSS_generate_url S E i s = (r, s1)"
  shows "l_url (fst s1) = l_url (fst s)"
    and "r = Inr u \<longrightarrow> snd (moss_generate_url E i) = Inr u"
proof -
  have both: "l_url (fst s1) = l_url (fst s) \<and> (r = Inr u \<longrightarrow> snd (moss_generate_url E i) = Inr u)"
  proof (cases "SUPPORTED_LANGUAGES S (language (l_job (fst s)))")
    case None
    then show ?thesis using assms by (auto simp: MOSS_generate_url_def)
  next
    case (Some lang)
    let ?c = "GenerateUrl (moss_id (l_job (fst s))) (snd lang) (l_paths (fst s))
                (max_until_ignored (l_job (fst s))) (max_displayed_matches (l_job (fst s)))"
    let ?s0 = "(fst s, (snd s)\<lparr>contacts := contacts (snd s) @ [?c]\<rparr>)"
    obtain rc sc where cb: "run_callbacks E (fst (moss_generate_url E i)) ?s0 = (rc, sc)"
      by (metis surj_pair)
    have "unchanged l_url ?s0 sc"
      using preservesD [OF unchanged_url_callbacks, of ?s0 E "fst (moss_generate_url E i)"] cb
      by simp
    then have u: "l_url (fst sc) = l_url (fst s)"
      by (simp add: unchanged_def)
    show ?thesis
      using assms Some cb u
      by (cases rc; cases "snd (moss_generate_url E i)")
         (auto simp: MOSS_generate_url_def Let_def bindE_def contact_def returnE_def raiseE_def)
  qed
  show "l_url (fst s1) = l_url (fst s)"
    and "r = Inr u \<longrightarrow> snd (moss_generate_url E i) = Inr u"
    using both by blast+
qed

lemma upload_url:
  assumes "upload S E i s = (r, s1)"
  shows "l_url (fst s1) = l_url (fst s)
       \<or> (\<exists>u. l_url (fst s1) = Some u \<and> snd (moss_generate_url E i) = Inr u)"
proof -
  let ?sa = "((fst s)\<lparr>l_job := (l_job (fst s))\<lparr>status := UPLOADING_STATUS\<rparr>\<rparr>, snd s)"
  obtain rb sb where sv: "job_save E ?sa = (rb, sb)"
    by (metis surj_pair)
  have ub: "l_url (fst sb) = l_url (fst s)"
    using sv by (auto simp: job_save_def db_write_def Let_def split: if_splits)
  show ?thesis
  proof (cases rb)
    case (Inl e)
    then show ?thesis
      using assms sv ub by (auto simp: upload_def bindE_def set_status_def)
  next
    case (Inr x)
    obtain rg sg where g: "MOSS_generate_url S E i sb = (rg, sg)"
      by (metis surj_pair)
    note gr = MOSS_generate_url_result [OF g]
    show ?thesis
    proof (cases rg)
      case (Inl e)
      then show ?thesis
        using assms sv Inr g gr(1) ub by (auto simp: upload_def bindE_def set_status_def)
    next
      case u: (Inr u)
      have "snd (moss_generate_url E i) = Inr u"
        using gr(2) [of u] u by simp
      then show ?thesis
        using assms sv Inr g u
        by (auto simp: upload_def bindE_def set_status_def logger_def)
    qed
  qed
qed

text \<open>
  The URL held after an attempt is the one held before it or the one the service gave in
  this attempt, and the report of a successful attempt is the one fetched for it.
\<close>

lemma try_block_url:
  assumes "try_block S E i s = (r, s1)"
  shows "l_url (fst s1) = l_url (fst s)
       \<or> (\<exists>u. l_url (fst s1) = Some u \<and> snd (moss_generate_url E i) = Inr u)"
    and "r = Inr () \<longrightarrow> (\<exists>res. l_result (fst s1) = Some res
                              \<and> moss_generate_report E i (l_url (fst s1)) = Inr res)"
proof -
  let ?s0 = "((fst s)\<lparr>l_error := None\<rparr>, snd s)"
  obtain ru su where up: "upload_if_needed S E i ?s0 = (ru, su)"
    by (metis surj_pair)
  have uu: "l_url (fst su) = l_url (fst s)
       \<or> (\<exists>u. l_url (fst su) = Some u \<and> snd (moss_generate_url E i) = Inr u)"
  proof (cases "is_valid_moss_url E (l_url (fst ?s0))")
    case True
    then show ?thesis using up by (auto simp: upload_if_needed_def returnE_def)
  next
    case False
    then have "upload S E i ?s0 = (ru, su)"
      using up by (simp add: upload_if_needed_def)
    from upload_url [OF this] show ?thesis by simp
  qed
  have both: "(l_url (fst s1) = l_url (fst s)
       \<or> (\<exists>u. l_url (fst s1) = Some u \<and> snd (moss_generate_url E i) = Inr u))
    \<and> (r = Inr () \<longrightarrow> (\<exists>res. l_result (fst s1) = Some res
                              \<and> moss_generate_report E i (l_url (fst s1)) = Inr res))"
  proof (cases ru)
    case (Inl e)
    then have "r = Inl e" "s1 = su"
      using assms up by (simp_all add: try_block_split)
    then show ?thesis using uu by simp
  next
    case (Inr x)
    then have p: "parse E i su = (r, s1)"
      using assms up by (simp add: try_block_split)
    show ?thesis
      using uu parse_summary(2,4) [OF p] by auto
  qed
  show "l_url (fst s1) = l_url (fst s)
       \<or> (\<exists>u. l_url (fst s1) = Some u \<and> snd (moss_generate_url E i) = Inr u)"
    and "r = Inr () \<longrightarrow> (\<exists>res. l_result (fst s1) = Some res
                              \<and> moss_generate_report E i (l_url (fst s1)) = Inr res)"
    using both by blast+
qed

text \<open>The handlers, outcome by outcome.\<close>

lemma retry_tail_result:
  assumes "retry_tail E a t s = (r, s1)"
  shows "fst s1 = fst s"
    and "r = Inr c \<longrightarrow> c = Continue \<and> 0 \<le> t
           \<and> events (snd s1) = events (snd s)
               @ [\<lparr>ev_job = job_id (l_job (fst s)), ev_type = RETRY_EVENT,
                   ev_message = Some (retry_message a (l_error (fst s)) t)\<rparr>]"
  using assms
  by (auto simp: retry_tail_def retry_message_def bindE_def returnE_def logger_def
        JobEvent_create_def db_write_def time_sleep_def Let_def split: if_splits)

lemma handler_locals:
  assumes "handler E i a t e s = (r, s1)"
  shows "l_result (fst s1) = l_result (fst s)" and "l_job (fst s1) = l_job (fst s)"
    and "l_url (fst s1) = l_url (fst s)"
  using assms
  by (auto simp: handler_def retry_tail_def bindE_def returnE_def logger_def contact_def
        JobEvent_create_def db_write_def time_sleep_def Let_def split: if_splits)

lemma handler_Continue:
  assumes "handler E i a t e s = (Inr Continue, s1)"
  shows "e = RecoverableMossException \<or> e = socket_error
           \<or> (e = EmptyResponse \<and> fst (pinger_determine_load E i) \<noteq> NORMAL)"
    and "events (snd s1) = events (snd s)
           @ [\<lparr>ev_job = job_id (l_job (fst s)), ev_type = RETRY_EVENT,
               ev_message = Some (retry_message a (Some e) t)\<rparr>]"
  using assms
  by (auto simp: handler_def retry_tail_def retry_message_def bindE_def returnE_def logger_def
        contact_def JobEvent_create_def db_write_def time_sleep_def Let_def split: if_splits)

lemma handler_Break:
  assumes "handler E i a t e s = (Inr Break, s1)"
  shows "events (snd s1) = events (snd s)"
  using assms
  by (auto simp: handler_def retry_tail_def bindE_def returnE_def logger_def
        contact_def JobEvent_create_def db_write_def time_sleep_def Let_def split: if_splits)

lemma resolved_matches_frame [simp]:
  "resolved_matches (w\<lparr>matches := x\<rparr>) jid mr ms = resolved_matches w jid mr ms"
  "resolved_matches (w\<lparr>db_ops := y\<rparr>) jid mr ms = resolved_matches w jid mr ms"
  "resolved_matches (w\<lparr>moss_results := z\<rparr>) jid mr ms = resolved_matches w jid mr ms"
  by (simp_all add: resolved_matches_def Submission_filter_first_def)

lemma create_matches_no_fault:
  assumes "no_db_fault E"
  shows "create_matches E mr ms s =
           (Inr (), (fst s, (snd s)\<lparr>matches := matches (snd s)
                                        @ resolved_matches (snd s) (job_id (l_job (fst s))) mr ms,
                                    db_ops := db_ops (snd s)
                                        + length (resolved_matches (snd s) (job_id (l_job (fst s))) mr ms)\<rparr>))"
proof (induction ms arbitrary: s)
  case Nil
  show ?case by (simp add: returnE_def resolved_matches_def)
next
  case (Cons m ms)
  show ?case
  proof (cases "Submission_filter_first (snd s) (job_id (l_job (fst s))) (name_1 m)")
    case None
    then show ?thesis
      using Cons [of s] by (simp add: bindE_def returnE_def resolved_matches_def)
  next
    case a: (Some a)
    show ?thesis
    proof (cases "Submission_filter_first (snd s) (job_id (l_job (fst s))) (name_2 m)")
      case None
      then show ?thesis
        using a Cons [of s] by (simp add: bindE_def returnE_def resolved_matches_def)
    next
      case b: (Some b)
      let ?w = "(snd s)\<lparr>db_ops := Suc (db_ops (snd s)),
                        matches := matches (snd s) @ [new_match mr a b m]\<rparr>"
      have step: "Match_create E (new_match mr a b m) s = (Inr (), (fst s, ?w))"
        using assms by (simp add: Match_create_def db_write_def no_db_fault_def Let_def)
      have "resolved_matches (snd s) (job_id (l_job (fst s))) mr (m # ms)
              = new_match mr a b m # resolved_matches (snd s) (job_id (l_job (fst s))) mr ms"
        using a b by (simp add: resolved_matches_def)
      then show ?thesis
        using a b step Cons [of "(fst s, ?w)"]
        by (simp add: bindE_def)
    qed
  qed
qed

lemma Submission_filter_first_Some:
  "Submission_filter_first w jid sid = Some x \<Longrightarrow>
     x \<in> set (submissions w) \<and> sub_job x = jid \<and> submission_id x = sid"
proof -
  assume a: "Submission_filter_first w jid sid = Some x"
  then obtain rest where
    "filter (\<lambda>x. sub_job x = jid \<and> submission_id x = sid) (submissions w) = x # rest"
    by (auto simp: Submission_filter_first_def split: list.splits)
  then have "x \<in> set (filter (\<lambda>x. sub_job x = jid \<and> submission_id x = sid) (submissions w))"
    by simp
  then show ?thesis by simp
qed

lemma Submission_filter_first_None:
  "Submission_filter_first w jid sid = None \<longleftrightarrow> \<not> resolves w jid sid"
proof (cases "filter (\<lambda>x. sub_job x = jid \<and> submission_id x = sid) (submissions w)")
  case Nil
  then show ?thesis
    by (simp add: Submission_filter_first_def resolves_def filter_empty_conv)
next
  case (Cons x rest)
  then have "x \<in> set (filter (\<lambda>x. sub_job x = jid \<and> submission_id x = sid) (submissions w))"
    by simp
  then have "resolves w jid sid"
    by (auto simp: resolves_def)
  then show ?thesis
    using Cons by (simp add: Submission_filter_first_def)
qed

lemma resolved_matches_raw:
  "map raw_of (resolved_matches w jid mr ms)
     = filter (\<lambda>m. resolves w jid (name_1 m) \<and> resolves w jid (name_2 m)) ms"
proof (induction ms)
  case Nil
  show ?case by (simp add: resolved_matches_def)
next
  case (Cons m ms)
  have tl: "resolved_matches w jid mr (m # ms)
          = (case (Submission_filter_first w jid (name_1 m),
                   Submission_filter_first w jid (name_2 m)) of
               (Some a, Some b) \<Rightarrow> [new_match mr a b m]
             | _ \<Rightarrow> []) @ resolved_matches w jid mr ms"
    by (simp add: resolved_matches_def)
  show ?case
  proof (cases "resolves w jid (name_1 m) \<and> resolves w jid (name_2 m)")
    case True
    have "Submission_filter_first w jid (name_1 m) \<noteq> None"
      and "Submission_filter_first w jid (name_2 m) \<noteq> None"
      using True by (simp_all add: Submission_filter_first_None)
    then obtain a b where ab: "Submission_filter_first w jid (name_1 m) = Some a"
        "Submission_filter_first w jid (name_2 m) = Some b"
      by blast
    have ida: "submission_id a = name_1 m"
      using Submission_filter_first_Some [OF ab(1)] by simp
    have idb: "submission_id b = name_2 m"
      using Submission_filter_first_Some [OF ab(2)] by simp
    have "raw_of (new_match mr a b m) = m"
      by (simp add: raw_of_def new_match_def ida idb)
    then have "map raw_of (resolved_matches w jid mr (m # ms))
                 = m # map raw_of (resolved_matches w jid mr ms)"
      by (simp add: tl ab)
    then show ?thesis
      by (simp add: True Cons)
  next
    case False
    then have "Submission_filter_first w jid (name_1 m) = None
             \<or> Submission_filter_first w jid (name_2 m) = None"
      by (simp add: Submission_filter_first_None)
    then have "resolved_matches w jid mr (m # ms) = resolved_matches w jid mr ms"
      by (auto simp: tl split: option.splits)
    then show ?thesis
      by (simp add: False Cons)
  qed
qed

lemma resolved_matches_own:
  assumes "r \<in> set (resolved_matches w jid mr ms)"
  shows "m_moss_result r = mr \<and> first_submission r \<in> set (submissions w)
       \<and> second_submission r \<in> set (submissions w)
       \<and> sub_job (first_submission r) = jid \<and> sub_job (second_submission r) = jid"
proof -
  from assms obtain m where
    m: "r \<in> set (case (Submission_filter_first w jid (name_1 m),
                        Submission_filter_first w jid (name_2 m)) of
                   (Some a, Some b) \<Rightarrow> [new_match mr a b m]
                 | _ \<Rightarrow> [])"
    by (auto simp: resolved_matches_def)
  show ?thesis
  proof (cases "Submission_filter_first w jid (name_1 m)")
    case None
    then show ?thesis using m by simp
  next
    case a: (Some a)
    show ?thesis
    proof (cases "Submission_filter_first w jid (name_2 m)")
      case None
      then show ?thesis using m a by simp
    next
      case b: (Some b)
      then have "r = new_match mr a b m"
        using m a by simp
      then show ?thesis
        using Submission_filter_first_Some [OF a] Submission_filter_first_Some [OF b]
        by (simp add: new_match_def)
    qed
  qed
qed

text \<open>Finalization when the database does not fail.\<close>

lemma finalize_failed:
  assumes "no_db_fault E" and "l_result (fst s) = None"
  shows "fst (finalize S E s) = Inr None"
    and "events (snd (snd (finalize S E s))) = events (snd s)
           @ [\<lparr>ev_job = job_id (l_job (fst s)), ev_type = FAILED_EVENT, ev_message = None\<rparr>]"
    and "jobs (snd (snd (finalize S E s))) (job_id (l_job (fst s)))
           = Some ((l_job (fst s))\<lparr>status := FAILED_STATUS,
                                     completion_date := Some (clock (snd s))\<rparr>)"
  using assms
  by (simp_all add: finalize_def final_try_def bindE_def returnE_def set_status_def
        JobEvent_create_def job_save_def db_write_def debug_block_def no_db_fault_def Let_def)

lemma finalize_completed:
  assumes "no_db_fault E" and "l_result (fst s) = Some res"
  shows "fst (finalize S E s) = Inr (Some (res_url res))"
    and "events (snd (snd (finalize S E s))) = events (snd s)
           @ [\<lparr>ev_job = job_id (l_job (fst s)), ev_type = COMPLETED_EVENT, ev_message = None\<rparr>]"
    and "jobs (snd (snd (finalize S E s))) (job_id (l_job (fst s)))
           = Some ((l_job (fst s))\<lparr>status := COMPLETED_STATUS,
                                     completion_date := Some (clock (snd s))\<rparr>)"
    and "matches (snd (snd (finalize S E s))) = matches (snd s)
           @ resolved_matches (snd s) (job_id (l_job (fst s)))
               \<lparr>mr_job = job_id (l_job (fst s)), mr_url = res_url res\<rparr> (res_matches res)"
  using assms
  by (simp_all add: finalize_def final_try_def bindE_def returnE_def set_status_def
        JobEvent_create_def job_save_def db_write_def debug_block_def no_db_fault_def Let_def
        MOSSResult_create_def create_matches_no_fault [unfolded no_db_fault_def])











section \<open>The guard on the stored status\<close>

text \<open>
  C3. A job whose stored status is not \<^verbatim>\<open>QUEUED\<close> is left alone: \<^verbatim>\<open>process_job\<close>
  returns nothing and the world is the one it started from, so the row of the job (its
  status and dates), the event table, the logger and the record of contacts with the
  service are all unchanged.
\<close>

theorem process_job_not_queued_noop:
  assumes "Job_objects_get w jid = Inr j" and "status j \<noteq> INQUEUE_STATUS"
  shows "process_job S E jid w = (Inr None, w)"
  using assms by (simp add: process_job_def)

theorem process_job_not_queued_noop_witness:
  "process_job ex_settings ex_env ''j1''
     (ex_world\<lparr>jobs := [''j1'' \<mapsto> ex_job\<lparr>status := FAILED_STATUS\<rparr>]\<rparr>)
   = (Inr None, ex_world\<lparr>jobs := [''j1'' \<mapsto> ex_job\<lparr>status := FAILED_STATUS\<rparr>]\<rparr>)"
proof -
  have get: "Job_objects_get (ex_world\<lparr>jobs := [''j1'' \<mapsto> ex_job\<lparr>status := FAILED_STATUS\<rparr>]\<rparr>) ''j1''
             = Inr (ex_job\<lparr>status := FAILED_STATUS\<rparr>)"
    by (simp add: Job_objects_get_def ex_job_def)
  have st: "status (ex_job\<lparr>status := FAILED_STATUS\<rparr>) \<noteq> INQUEUE_STATUS"
    by simp
  show ?thesis
    by (rule process_job_not_queued_noop [OF get st])
qed

section \<open>A job without files\<close>

text \<open>
  C1. At a queued job whose upload directory does not exist, \<^verbatim>\<open>process_job\<close> stores
  the status \<^verbatim>\<open>FAILED\<close>, creates the single event \<^verbatim>\<open>FAILED\<close> with the message
  "No files supplied", contacts nobody and returns nothing; the stored
  \<open>completion_date\<close> is still unset, where the spec has it set.
\<close>

theorem no_files_completion_date_unset:
  "(case process_job ex_settings (ex_env\<lparr>os_path_isdir := (\<lambda>p. False)\<rparr>) ''j1'' ex_world of
      (r, w) \<Rightarrow> (r, jobs w ''j1'', drop (length (events ex_world)) (events w),
                 take (length (events ex_world)) (events w) = events ex_world, contacts w))
   = (Inr None,
      Some (ex_job\<lparr>status := FAILED_STATUS, start_date := Some 100, completion_date := None\<rparr>),
      [\<lparr>ev_job = ''j1'', ev_type = FAILED_EVENT, ev_message = Some [Str ''No files supplied'']\<rparr>],
      True, [])"
  by (simp add: model_defs ex_defs)

text \<open>
  C2. At a queued job whose directory holds only an empty file, the run passes the guard
  and ends in the terminal status \<^verbatim>\<open>FAILED\<close>, and the row it stored has no
  \<open>completion_date\<close>: the terminal transition of the immediate failure does not set it.
\<close>

theorem empty_files_terminal_without_completion_date:
  "(case process_job ex_settings (ex_env\<lparr>os_listdir := (\<lambda>p. [''empty.py''])\<rparr>) ''j1'' ex_world of
      (r, w) \<Rightarrow> (r, map_option status (jobs w ''j1''), map_option completion_date (jobs w ''j1''),
                 map_option start_date (jobs w ''j1'')))
   = (Inr None, Some FAILED_STATUS, Some None, Some (Some 100))"
  by (simp add: model_defs ex_defs)

section \<open>Events of a run\<close>


lemma iteration_Inl:
  "try_block S E i ((fst s)\<lparr>l_num_attempts := a\<rparr>, snd s) = (Inl e, s1) \<Longrightarrow>
     iteration S E i a t s = handler E i a t e s1"
  by (simp add: iteration_def)

lemma iteration_Inr:
  "try_block S E i ((fst s)\<lparr>l_num_attempts := a\<rparr>, snd s) = (Inr u, s1) \<Longrightarrow>
     iteration S E i a t s = (Inr Break, s1)"
  by (simp add: iteration_def)


section \<open>Runs that reach the finalization\<close>

lemma started_simps [simp]:
  "events (snd (started S E j w)) = events w"
  "l_result (fst (started S E j w)) = None"
  "job_id (l_job (fst (started S E j w))) = job_id j"
  "status (l_job (fst (started S E j w))) = status j"
  "l_paths (fst (started S E j w)) = collect_paths S E (job_id j)"
  by (simp_all add: started_def initial_locals_def)

lemma Job_objects_get_Inr: "Job_objects_get w jid = Inr j \<Longrightarrow> jobs w jid = Some j \<and> job_id j = jid"
  by (auto simp: Job_objects_get_def split: option.splits if_splits)

lemma process_job_finalizes:
  assumes "Job_objects_get w jid = Inr j" and "status j = INQUEUE_STATUS"
    and "\<not> no_files S (collect_paths S E jid)"
    and "attempts_loop S E 0 (schedule S E) (started S E j w) = (Inr u, s1)"
  shows "process_job S E jid w = (fst (finalize S E s1), snd (snd (finalize S E s1)))"
  using assms Job_objects_get_Inr [OF assms(1)]
  by (simp add: process_job_def Let_def split: prod.splits)

lemma attempt_errors_Some:
  assumes "attempt_errors S E i sched s = Some e # later"
  obtains a t rest s1 where "sched = (a, t) # rest"
    and "try_block S E i ((fst s)\<lparr>l_num_attempts := a\<rparr>, snd s) = (Inl e, s1)"
    and "iteration S E i a t s = handler E i a t e s1"
    and "later = (case handler E i a t e s1 of
                   (Inr Continue, s2) \<Rightarrow> attempt_errors S E (Suc i) rest s2
                 | _ \<Rightarrow> [])"
proof (cases sched)
  case Nil
  then show ?thesis using assms by simp
next
  case (Cons p rest)
  obtain a t where p: "p = (a, t)" by (metis surj_pair)
  obtain r s1 where tb: "try_block S E i ((fst s)\<lparr>l_num_attempts := a\<rparr>, snd s) = (r, s1)"
    by (metis surj_pair)
  have r: "r = Inl e"
    using assms Cons p tb by (cases r) simp_all
  have it: "iteration S E i a t s = handler E i a t e s1"
    using tb r by (simp add: iteration_Inl)
  show ?thesis
  proof (rule that [of a t rest s1])
    show "sched = (a, t) # rest" using Cons p by simp
    show "try_block S E i ((fst s)\<lparr>l_num_attempts := a\<rparr>, snd s) = (Inl e, s1)"
      using tb r by simp
    show "iteration S E i a t s = handler E i a t e s1" by (rule it)
    show "later = (case handler E i a t e s1 of
                   (Inr Continue, s2) \<Rightarrow> attempt_errors S E (Suc i) rest s2
                 | _ \<Rightarrow> [])"
      using assms Cons p it by simp
  qed
qed

lemma attempt_errors_None:
  assumes "attempt_errors S E i sched s = None # later"
  obtains a t rest s1 where "sched = (a, t) # rest"
    and "try_block S E i ((fst s)\<lparr>l_num_attempts := a\<rparr>, snd s) = (Inr (), s1)"
    and "attempts_loop S E i sched s = (Inr (), s1)"
    and "later = []"
proof (cases sched)
  case Nil
  then show ?thesis using assms by simp
next
  case (Cons p rest)
  obtain a t where p: "p = (a, t)" by (metis surj_pair)
  obtain r s1 where tb: "try_block S E i ((fst s)\<lparr>l_num_attempts := a\<rparr>, snd s) = (r, s1)"
    by (metis surj_pair)
  have r: "r = Inr ()"
    using assms Cons p tb by (cases r) simp_all
  have it: "iteration S E i a t s = (Inr Break, s1)"
    using tb r by (simp add: iteration_Inr)
  show ?thesis
  proof (rule that [of a t rest s1])
    show "sched = (a, t) # rest" using Cons p by simp
    show "try_block S E i ((fst s)\<lparr>l_num_attempts := a\<rparr>, snd s) = (Inr (), s1)"
      using tb r by simp
    show "attempts_loop S E i sched s = (Inr (), s1)"
      using Cons p it by simp
    show "later = []"
      using assms Cons p it by simp
  qed
qed

text \<open>A failed attempt whose exception is not one of the database leaves no result.\<close>

lemma try_block_raises:
  assumes "try_block S E i s = (Inl e, s1)" and "e \<noteq> DatabaseError"
  shows "l_result (fst s1) = l_result (fst s)"
    and "job_id (l_job (fst s1)) = job_id (l_job (fst s))"
    and "cnt RETRY_EVENT s1 = cnt RETRY_EVENT s"
    and "cnt FAILED_EVENT s1 = cnt FAILED_EVENT s"
    and "cnt COMPLETED_EVENT s1 = cnt COMPLETED_EVENT s"
    and "cnt PARSING_EVENT s \<le> cnt PARSING_EVENT s1"
    and "cnt PARSING_EVENT s1 \<le> cnt PARSING_EVENT s + 1"
proof -
  have g: "grows {UPLOADING_EVENT, PROCESSING_EVENT, PARSING_EVENT} s s1"
    using preservesD [OF grows_try_block, of s S E i] assms(1) by simp
  show "l_result (fst s1) = l_result (fst s)"
    using try_block_summary(5) [OF assms(1)] assms(2) by auto
  show "job_id (l_job (fst s1)) = job_id (l_job (fst s))"
    using g by (simp add: grows_def)
  show "cnt RETRY_EVENT s1 = cnt RETRY_EVENT s" "cnt FAILED_EVENT s1 = cnt FAILED_EVENT s"
    "cnt COMPLETED_EVENT s1 = cnt COMPLETED_EVENT s"
    using grows_cnt_same [OF g] by simp_all
  show "cnt PARSING_EVENT s \<le> cnt PARSING_EVENT s1"
    by (rule grows_cnt_le [OF g])
  show "cnt PARSING_EVENT s1 \<le> cnt PARSING_EVENT s + 1"
    using try_block_summary(3) [OF assms(1)] by simp
qed

text \<open>
  C7. A queued job with files, a database that does not fail, and a first attempt whose
  \<^verbatim>\<open>try\<close> body raises \<^verbatim>\<open>FatalMossException\<close>: there is no second attempt, the
  run creates no \<^verbatim>\<open>RETRY\<close> event and exactly one \<^verbatim>\<open>FAILED\<close> event, the stored
  status is \<^verbatim>\<open>FAILED\<close> and \<^verbatim>\<open>process_job\<close> returns \<^verbatim>\<open>None\<close>.
\<close>

theorem fatal_error_first_attempt:
  assumes get: "Job_objects_get w jid = Inr j" and queued: "status j = INQUEUE_STATUS"
    and files: "\<not> no_files S (collect_paths S E jid)"
    and nofault: "no_db_fault E"
    and errs: "attempt_errors S E 0 (schedule S E) (started S E j w)
                 = Some FatalMossException # later"
  shows "later = []
    \<and> fst (process_job S E jid w) = Inr None
    \<and> count_events RETRY_EVENT (events (snd (process_job S E jid w)))
        = count_events RETRY_EVENT (events w)
    \<and> count_events FAILED_EVENT (events (snd (process_job S E jid w)))
        = Suc (count_events FAILED_EVENT (events w))
    \<and> map_option status (jobs (snd (process_job S E jid w)) jid) = Some FAILED_STATUS"
proof -
  let ?s = "started S E j w"
  from errs obtain a t rest s1 where
    sched: "schedule S E = (a, t) # rest"
    and tb: "try_block S E 0 ((fst ?s)\<lparr>l_num_attempts := a\<rparr>, snd ?s) = (Inl FatalMossException, s1)"
    and it: "iteration S E 0 a t ?s = handler E 0 a t FatalMossException s1"
    and later: "later = (case handler E 0 a t FatalMossException s1 of
                   (Inr Continue, s2) \<Rightarrow> attempt_errors S E (Suc 0) rest s2
                 | _ \<Rightarrow> [])"
    by (rule attempt_errors_Some)
  have h: "handler E 0 a t FatalMossException s1 = (Inr Break, s1)"
    by (simp add: handler_def returnE_def)
  have lp: "attempts_loop S E 0 (schedule S E) ?s = (Inr (), s1)"
    using sched it h by simp
  have jid: "job_id j = jid"
    using Job_objects_get_Inr [OF get] by simp
  note tbr = try_block_raises [OF tb]
  have res: "l_result (fst s1) = None"
    using tbr(1) by simp
  have id1: "job_id (l_job (fst s1)) = jid"
    using tbr(2) jid by simp
  have pj: "process_job S E jid w = (fst (finalize S E s1), snd (snd (finalize S E s1)))"
    by (rule process_job_finalizes [OF get queued files lp])
  have c1: "count_events RETRY_EVENT (events (snd s1)) = count_events RETRY_EVENT (events w)"
    and c2: "count_events FAILED_EVENT (events (snd s1)) = count_events FAILED_EVENT (events w)"
    using tbr(3,4) by (simp_all add: cnt_def)
  show ?thesis
    using later h pj finalize_failed [OF nofault res, of S] c1 c2 id1
    by (simp add: count_events_def)
qed

lemma try_block_succeeds:
  assumes "try_block S E i s = (Inr u, s1)"
  shows "\<exists>res url. l_result (fst s1) = Some res \<and> moss_generate_report E i url = Inr res"
    and "job_id (l_job (fst s1)) = job_id (l_job (fst s))"
    and "cnt RETRY_EVENT s1 = cnt RETRY_EVENT s"
    and "cnt FAILED_EVENT s1 = cnt FAILED_EVENT s"
    and "cnt COMPLETED_EVENT s1 = cnt COMPLETED_EVENT s"
    and "cnt PARSING_EVENT s1 = cnt PARSING_EVENT s + 2"
proof -
  have g: "grows {UPLOADING_EVENT, PROCESSING_EVENT, PARSING_EVENT} s s1"
    using preservesD [OF grows_try_block, of s S E i] assms(1) by simp
  show "\<exists>res url. l_result (fst s1) = Some res \<and> moss_generate_report E i url = Inr res"
    using try_block_summary(4) [OF assms] by simp
  show "job_id (l_job (fst s1)) = job_id (l_job (fst s))"
    using g by (simp add: grows_def)
  show "cnt RETRY_EVENT s1 = cnt RETRY_EVENT s" "cnt FAILED_EVENT s1 = cnt FAILED_EVENT s"
    "cnt COMPLETED_EVENT s1 = cnt COMPLETED_EVENT s"
    using grows_cnt_same [OF g] by simp_all
  show "cnt PARSING_EVENT s1 = cnt PARSING_EVENT s + 2"
    using try_block_summary(2) [OF assms] by simp
qed

lemma cnt_locals [simp]: "cnt ty (l, snd s) = cnt ty s"
  by (simp add: cnt_def)

text \<open>An attempt after which the loop goes on.\<close>

lemma retried_attempt:
  assumes tb: "try_block S E i ((fst s)\<lparr>l_num_attempts := a\<rparr>, snd s) = (Inl e, s1)"
    and h: "handler E i a t e s1 = (Inr Continue, s2)"
  shows "l_result (fst s2) = l_result (fst s)"
    and "job_id (l_job (fst s2)) = job_id (l_job (fst s))"
    and "cnt RETRY_EVENT s2 = cnt RETRY_EVENT s + 1"
    and "cnt FAILED_EVENT s2 = cnt FAILED_EVENT s"
    and "cnt COMPLETED_EVENT s2 = cnt COMPLETED_EVENT s"
    and "cnt PARSING_EVENT s \<le> cnt PARSING_EVENT s2"
    and "cnt PARSING_EVENT s2 \<le> cnt PARSING_EVENT s + 1"
proof -
  have e: "e \<noteq> DatabaseError"
    using handler_Continue(1) [OF h] by auto
  note tbr = try_block_raises [OF tb e]
  note ev = handler_Continue(2) [OF h]
  note loc = handler_locals [OF h]
  show "l_result (fst s2) = l_result (fst s)"
    using tbr(1) loc(1) by simp
  show "job_id (l_job (fst s2)) = job_id (l_job (fst s))"
    using tbr(2) loc(2) by simp
  show "cnt RETRY_EVENT s2 = cnt RETRY_EVENT s + 1"
    using tbr(3) ev by (simp add: cnt_def count_events_def)
  show "cnt FAILED_EVENT s2 = cnt FAILED_EVENT s"
    using tbr(4) ev by (simp add: cnt_def count_events_def)
  show "cnt COMPLETED_EVENT s2 = cnt COMPLETED_EVENT s"
    using tbr(5) ev by (simp add: cnt_def count_events_def)
  show "cnt PARSING_EVENT s \<le> cnt PARSING_EVENT s2"
    using tbr(6) ev by (simp add: cnt_def count_events_def)
  show "cnt PARSING_EVENT s2 \<le> cnt PARSING_EVENT s + 1"
    using tbr(7) ev by (simp add: cnt_def count_events_def)
qed

lemma attempt_errors_retried:
  assumes "attempt_errors S E i sched s = Some e # x # later"
  obtains a t rest s1 s2 where "sched = (a, t) # rest"
    and "try_block S E i ((fst s)\<lparr>l_num_attempts := a\<rparr>, snd s) = (Inl e, s1)"
    and "handler E i a t e s1 = (Inr Continue, s2)"
    and "attempt_errors S E (Suc i) rest s2 = x # later"
    and "attempts_loop S E i sched s = attempts_loop S E (Suc i) rest s2"
proof -
  from assms obtain a t rest s1 where
    sched: "sched = (a, t) # rest"
    and tb: "try_block S E i ((fst s)\<lparr>l_num_attempts := a\<rparr>, snd s) = (Inl e, s1)"
    and it: "iteration S E i a t s = handler E i a t e s1"
    and later: "x # later = (case handler E i a t e s1 of
                   (Inr Continue, s2) \<Rightarrow> attempt_errors S E (Suc i) rest s2
                 | _ \<Rightarrow> [])"
    by (rule attempt_errors_Some)
  obtain r s2 where h: "handler E i a t e s1 = (r, s2)"
    by (metis surj_pair)
  have r: "r = Inr Continue"
  proof (cases r)
    case (Inl x)
    then show ?thesis using later h by simp
  next
    case (Inr c)
    then show ?thesis using later h by (cases c) simp_all
  qed
  show ?thesis
  proof (rule that [of a t rest s1 s2])
    show "sched = (a, t) # rest" by (rule sched)
    show "try_block S E i ((fst s)\<lparr>l_num_attempts := a\<rparr>, snd s) = (Inl e, s1)" by (rule tb)
    show "handler E i a t e s1 = (Inr Continue, s2)" using h r by simp
    show "attempt_errors S E (Suc i) rest s2 = x # later" using later h r by simp
    show "attempts_loop S E i sched s = attempts_loop S E (Suc i) rest s2"
      using sched it h r by simp
  qed
qed

lemma started_url: "l_url (fst (started S E j w)) = None"
  by (simp add: started_def initial_locals_def)

text \<open>
  C5, as the code has it. A queued job with files, a database that does not fail, and
  attempts that end with \<^verbatim>\<open>socket.error\<close>, \<^verbatim>\<open>socket.error\<close> and success: the
  run creates exactly two \<^verbatim>\<open>RETRY\<close> events, exactly one \<^verbatim>\<open>COMPLETED\<close> event and
  no \<^verbatim>\<open>FAILED\<close> event, and the stored status is \<^verbatim>\<open>COMPLETED\<close>. The value
  returned is the URL of the report that the third attempt fetched for the URL held in
  \<open>url\<close>; with a client whose report carries the URL it was fetched for, it is the
  service-session URL itself: the URL held in \<open>url\<close>, which \<^verbatim>\<open>generate_url\<close> gave in
  one of the three attempts. The successful attempt alone creates two \<^verbatim>\<open>PARSING\<close>
  events ("Start parsing report" and "Result finished parsing"), and each failed attempt
  that got as far as fetching the report adds one more: between two and four in all.
\<close>

theorem two_transient_errors_then_success:
  assumes get: "Job_objects_get w jid = Inr j" and queued: "status j = INQUEUE_STATUS"
    and files: "\<not> no_files S (collect_paths S E jid)"
    and nofault: "no_db_fault E"
    and errs: "attempt_errors S E 0 (schedule S E) (started S E j w)
                 = [Some socket_error, Some socket_error, None]"
  shows "(\<exists>res. moss_generate_report E 2
                   (l_url (fst (snd (attempts_loop S E 0 (schedule S E) (started S E j w)))))
                 = Inr res
            \<and> fst (process_job S E jid w) = Inr (Some (res_url res))
            \<and> (report_carries_url E \<longrightarrow>
                  l_url (fst (snd (attempts_loop S E 0 (schedule S E) (started S E j w))))
                    = Some (res_url res)
                  \<and> (\<exists>i<3. snd (moss_generate_url E i) = Inr (res_url res))))
    \<and> count_events RETRY_EVENT (events (snd (process_job S E jid w)))
        = count_events RETRY_EVENT (events w) + 2
    \<and> count_events COMPLETED_EVENT (events (snd (process_job S E jid w)))
        = count_events COMPLETED_EVENT (events w) + 1
    \<and> count_events FAILED_EVENT (events (snd (process_job S E jid w)))
        = count_events FAILED_EVENT (events w)
    \<and> count_events PARSING_EVENT (events w) + 2
        \<le> count_events PARSING_EVENT (events (snd (process_job S E jid w)))
    \<and> count_events PARSING_EVENT (events (snd (process_job S E jid w)))
        \<le> count_events PARSING_EVENT (events w) + 4
    \<and> map_option status (jobs (snd (process_job S E jid w)) jid) = Some COMPLETED_STATUS"
proof -
  let ?s = "started S E j w"
  from errs obtain a1 t1 rest1 s1 s1' where
    sched1: "schedule S E = (a1, t1) # rest1"
    and tb1: "try_block S E 0 ((fst ?s)\<lparr>l_num_attempts := a1\<rparr>, snd ?s) = (Inl socket_error, s1)"
    and h1: "handler E 0 a1 t1 socket_error s1 = (Inr Continue, s1')"
    and errs1: "attempt_errors S E (Suc 0) rest1 s1' = [Some socket_error, None]"
    and lp1: "attempts_loop S E 0 (schedule S E) ?s = attempts_loop S E (Suc 0) rest1 s1'"
    by (rule attempt_errors_retried)
  from errs1 obtain a2 t2 rest2 s2 s2' where
    sched2: "rest1 = (a2, t2) # rest2"
    and tb2: "try_block S E (Suc 0) ((fst s1')\<lparr>l_num_attempts := a2\<rparr>, snd s1') = (Inl socket_error, s2)"
    and h2: "handler E (Suc 0) a2 t2 socket_error s2 = (Inr Continue, s2')"
    and errs2: "attempt_errors S E (Suc (Suc 0)) rest2 s2' = [None]"
    and lp2: "attempts_loop S E (Suc 0) rest1 s1' = attempts_loop S E (Suc (Suc 0)) rest2 s2'"
    by (rule attempt_errors_retried)
  from errs2 obtain a3 t3 rest3 s3 where
    tb3: "try_block S E (Suc (Suc 0)) ((fst s2')\<lparr>l_num_attempts := a3\<rparr>, snd s2') = (Inr (), s3)"
    and lp3: "attempts_loop S E (Suc (Suc 0)) rest2 s2' = (Inr (), s3)"
    by (rule attempt_errors_None)
  note r1 = retried_attempt [OF tb1 h1]
  note r2 = retried_attempt [OF tb2 h2]
  note r3 = try_block_succeeds [OF tb3]
  have lp: "attempts_loop S E 0 (schedule S E) ?s = (Inr (), s3)"
    using lp1 lp2 lp3 by simp
  have pj: "process_job S E jid w = (fst (finalize S E s3), snd (snd (finalize S E s3)))"
    by (rule process_job_finalizes [OF get queued files lp])
  from try_block_url(2) [OF tb3] obtain res where
    res: "l_result (fst s3) = Some res"
    and rep: "moss_generate_report E 2 (l_url (fst s3)) = Inr res"
    by (auto simp: numeral_2_eq_2)
  have c1: "l_url (fst s1') = None
          \<or> (\<exists>u. l_url (fst s1') = Some u \<and> snd (moss_generate_url E 0) = Inr u)"
    using try_block_url(1) [OF tb1] handler_locals(3) [OF h1] by (simp add: started_url)
  have c2: "l_url (fst s2') = l_url (fst s1')
          \<or> (\<exists>u. l_url (fst s2') = Some u \<and> snd (moss_generate_url E (Suc 0)) = Inr u)"
    using try_block_url(1) [OF tb2] handler_locals(3) [OF h2] by simp
  have c3: "l_url (fst s3) = l_url (fst s2')
          \<or> (\<exists>u. l_url (fst s3) = Some u \<and> snd (moss_generate_url E (Suc (Suc 0))) = Inr u)"
    using try_block_url(1) [OF tb3] by simp
  have session: "l_url (fst s3) = Some (res_url res)
      \<and> (\<exists>i<3. snd (moss_generate_url E i) = Inr (res_url res))"
    if carries: "report_carries_url E"
  proof -
    have url3: "l_url (fst s3) = Some (res_url res)"
      using carries rep unfolding report_carries_url_def by blast
    have "snd (moss_generate_url E 0) = Inr (res_url res)
        \<or> snd (moss_generate_url E (Suc 0)) = Inr (res_url res)
        \<or> snd (moss_generate_url E (Suc (Suc 0))) = Inr (res_url res)"
      using c1 c2 c3 url3 by auto
    then have "\<exists>i<3. snd (moss_generate_url E i) = Inr (res_url res)"
      by (metis lessI less_SucI numeral_3_eq_3)
    then show ?thesis
      using url3 by simp
  qed
  have jid: "job_id (l_job (fst s3)) = jid"
    using r1(2) r2(2) r3(2) Job_objects_get_Inr [OF get] by simp
  note fin = finalize_completed [OF nofault res, of S]
  have retry: "cnt RETRY_EVENT s3 = count_events RETRY_EVENT (events w) + 2"
    using r1(3) r2(3) r3(3) by (simp add: cnt_def)
  have failed: "cnt FAILED_EVENT s3 = count_events FAILED_EVENT (events w)"
    using r1(4) r2(4) r3(4) by (simp add: cnt_def)
  have completed: "cnt COMPLETED_EVENT s3 = count_events COMPLETED_EVENT (events w)"
    using r1(5) r2(5) r3(5) by (simp add: cnt_def)
  have parsing: "count_events PARSING_EVENT (events w) + 2 \<le> cnt PARSING_EVENT s3"
    "cnt PARSING_EVENT s3 \<le> count_events PARSING_EVENT (events w) + 4"
    using r1(6,7) r2(6,7) r3(6) by (simp_all add: cnt_def)
  have "\<exists>res. moss_generate_report E 2
                   (l_url (fst (snd (attempts_loop S E 0 (schedule S E) (started S E j w)))))
                 = Inr res
            \<and> fst (process_job S E jid w) = Inr (Some (res_url res))
            \<and> (report_carries_url E \<longrightarrow>
                  l_url (fst (snd (attempts_loop S E 0 (schedule S E) (started S E j w))))
                    = Some (res_url res)
                  \<and> (\<exists>i<3. snd (moss_generate_url E i) = Inr (res_url res)))"
    using rep pj fin(1) session lp by (intro exI [of _ res]) simp
  moreover have "events (snd (process_job S E jid w)) = events (snd s3)
           @ [\<lparr>ev_job = jid, ev_type = COMPLETED_EVENT, ev_message = None\<rparr>]"
    using pj fin(2) jid by simp
  moreover have "map_option status (jobs (snd (process_job S E jid w)) jid) = Some COMPLETED_STATUS"
    using pj fin(3) jid by simp
  ultimately show ?thesis
    using retry failed completed parsing by (simp add: cnt_def count_events_def)
qed

section \<open>The example runs\<close>

lemma ex_get: "Job_objects_get ex_world ''j1'' = Inr ex_job"
  by (simp add: Job_objects_get_def ex_world_def ex_job_def)

lemma ex_queued: "status ex_job = INQUEUE_STATUS"
  by (simp add: ex_job_def)

lemma ex_files: "\<not> no_files ex_settings (collect_paths ex_settings ex_env ''j1'')"
  by (simp add: no_files_def collect_paths_def os_path_join_def ex_settings_def ex_env_def)

lemma ex_raising_files:
  "\<not> no_files ex_settings (collect_paths ex_settings (ex_env_raising e load) ''j1'')"
  by (simp add: no_files_def collect_paths_def os_path_join_def ex_settings_def
        ex_env_raising_def ex_env_def)

lemma ex_no_db_fault: "no_db_fault ex_env"
  by (simp add: no_db_fault_def ex_env_def)

lemma ex_raising_no_db_fault: "no_db_fault (ex_env_raising e load)"
  by (simp add: no_db_fault_def ex_env_raising_def ex_env_def)

lemma ex_run_errors:
  "attempt_errors ex_settings ex_env 0 (schedule ex_settings ex_env)
     (started ex_settings ex_env ex_job ex_world) = [Some socket_error, Some socket_error, None]"
  by (simp add: model_defs ex_defs)

theorem fatal_error_first_attempt_witness:
  "fst (process_job ex_settings (ex_env_raising FatalMossException NORMAL) ''j1'' ex_world) = Inr None
    \<and> count_events RETRY_EVENT
         (events (snd (process_job ex_settings (ex_env_raising FatalMossException NORMAL) ''j1'' ex_world)))
        = count_events RETRY_EVENT (events ex_world)
    \<and> count_events FAILED_EVENT
         (events (snd (process_job ex_settings (ex_env_raising FatalMossException NORMAL) ''j1'' ex_world)))
        = Suc (count_events FAILED_EVENT (events ex_world))
    \<and> map_option status
         (jobs (snd (process_job ex_settings (ex_env_raising FatalMossException NORMAL) ''j1'' ex_world)) ''j1'')
        = Some FAILED_STATUS"
proof -
  have errs: "attempt_errors ex_settings (ex_env_raising FatalMossException NORMAL) 0
                (schedule ex_settings (ex_env_raising FatalMossException NORMAL))
                (started ex_settings (ex_env_raising FatalMossException NORMAL) ex_job ex_world)
              = Some FatalMossException # []"
    by (simp add: model_defs ex_defs ex_env_raising_def)
  show ?thesis
    using fatal_error_first_attempt [OF ex_get ex_queued ex_raising_files ex_raising_no_db_fault errs]
    by simp
qed

text \<open>
  At the example job the first two uploads are cut off and the third attempt succeeds, and
  the run creates two \<^verbatim>\<open>PARSING\<close> events, not one.
\<close>

theorem two_transient_errors_two_parsing_events:
  "attempt_errors ex_settings ex_env 0 (schedule ex_settings ex_env)
     (started ex_settings ex_env ex_job ex_world) = [Some socket_error, Some socket_error, None]
   \<and> count_events PARSING_EVENT (events ex_world) = 0
   \<and> count_events PARSING_EVENT (events (snd (process_job ex_settings ex_env ''j1'' ex_world))) = 2"
proof -
  have "count_events PARSING_EVENT (events (snd (process_job ex_settings ex_env ''j1'' ex_world))) = 2"
    by (simp add: model_defs ex_defs)
  moreover have "count_events PARSING_EVENT (events ex_world) = 0"
    by (simp add: count_events_def ex_world_def)
  ultimately show ?thesis
    using ex_run_errors by simp
qed

lemma ex_report_carries_url: "report_carries_url ex_env"
  by (simp add: report_carries_url_def ex_env_def ex_result_def)

theorem two_transient_errors_then_success_witness:
  "snd (moss_generate_url ex_env 2) = Inr ''http://moss.stanford.edu/results/1/23''
    \<and> l_url (fst (snd (attempts_loop ex_settings ex_env 0 (schedule ex_settings ex_env)
                         (started ex_settings ex_env ex_job ex_world))))
        = Some ''http://moss.stanford.edu/results/1/23''
    \<and> fst (process_job ex_settings ex_env ''j1'' ex_world)
        = Inr (Some ''http://moss.stanford.edu/results/1/23'')
    \<and> count_events RETRY_EVENT (events (snd (process_job ex_settings ex_env ''j1'' ex_world)))
        = count_events RETRY_EVENT (events ex_world) + 2
    \<and> count_events COMPLETED_EVENT (events (snd (process_job ex_settings ex_env ''j1'' ex_world)))
        = count_events COMPLETED_EVENT (events ex_world) + 1
    \<and> count_events FAILED_EVENT (events (snd (process_job ex_settings ex_env ''j1'' ex_world)))
        = count_events FAILED_EVENT (events ex_world)
    \<and> count_events PARSING_EVENT (events ex_world) + 2
        \<le> count_events PARSING_EVENT (events (snd (process_job ex_settings ex_env ''j1'' ex_world)))
    \<and> count_events PARSING_EVENT (events (snd (process_job ex_settings ex_env ''j1'' ex_world)))
        \<le> count_events PARSING_EVENT (events ex_world) + 4
    \<and> map_option status (jobs (snd (process_job ex_settings ex_env ''j1'' ex_world)) ''j1'')
        = Some COMPLETED_STATUS"
proof -
  have rep: "moss_generate_report ex_env 2 u = Inr res \<longrightarrow>
               res_url res = ''http://moss.stanford.edu/results/1/23''" for u res
    by (auto simp: ex_env_def ex_result_def)
  have url: "snd (moss_generate_url ex_env 2) = Inr ''http://moss.stanford.edu/results/1/23''"
    by (simp add: ex_env_def)
  from two_transient_errors_then_success
        [OF ex_get ex_queued ex_files ex_no_db_fault ex_run_errors] ex_report_carries_url
  show ?thesis
    using rep url by auto
qed



section \<open>The empty response\<close>

lemma handler_empty_normal:
  assumes "fst (pinger_determine_load E i) = NORMAL"
  shows "\<exists>s2. handler E i a t EmptyResponse s1 = (Inr Break, s2)
           \<and> events (snd s2) = events (snd s1)
           \<and> contacts (snd s2) = contacts (snd s1) @ [DetermineLoad]
           \<and> l_result (fst s2) = l_result (fst s1)
           \<and> job_id (l_job (fst s2)) = job_id (l_job (fst s1))"
  using assms
  by (simp add: handler_def bindE_def returnE_def contact_def logger_def Let_def)

lemma handler_empty_loaded:
  assumes "fst (pinger_determine_load E i) \<noteq> NORMAL" and "no_db_fault E" and "0 \<le> t"
  shows "\<exists>s2. handler E i a t EmptyResponse s1 = (Inr Continue, s2)
           \<and> events (snd s2) = events (snd s1)
               @ [\<lparr>ev_job = job_id (l_job (fst s1)), ev_type = RETRY_EVENT,
                   ev_message = Some (retry_message a (Some EmptyResponse) t)\<rparr>]
           \<and> clock (snd s2) = clock (snd s1) + t"
  using assms
  by (simp add: handler_def retry_tail_def bindE_def returnE_def contact_def logger_def
        JobEvent_create_def db_write_def time_sleep_def no_db_fault_def Let_def)

text \<open>
  C4. An attempt whose \<^verbatim>\<open>try\<close> body raises \<^verbatim>\<open>EmptyResponse\<close> asks the load prober.
  At \<^verbatim>\<open>NORMAL\<close> load the attempt creates no event and leaves the loop, so no
  \<^verbatim>\<open>RETRY\<close> event stands for it; the result is still unset (as it is whenever an
  attempt starts, see \<open>iteration_result\<close> below), and the finalization stores \<^verbatim>\<open>FAILED\<close>,
  creates the \<^verbatim>\<open>FAILED\<close> event and returns nothing. At \<^verbatim>\<open>UNDER_LOAD\<close> or
  \<^verbatim>\<open>DOWN\<close>, when the event can be written and the wait is not negative, the attempt
  creates one \<^verbatim>\<open>RETRY\<close> event whose message is "(Attempt \<open>a\<close>) Error:
  \<^verbatim>\<open>EmptyResponse\<close> | Retrying in \<open>t\<close> seconds", with the attempt number \<open>a\<close> and the
  wait \<open>t\<close> of the scheduler, sleeps for that wait, and the loop goes on with the pairs the
  scheduler has left.
\<close>

theorem empty_response_consults_load:
  assumes tb: "try_block S E i ((fst s)\<lparr>l_num_attempts := a\<rparr>, snd s) = (Inl EmptyResponse, s1)"
  shows "(fst (pinger_determine_load E i) = NORMAL \<longrightarrow>
            (\<exists>s2. iteration S E i a t s = (Inr Break, s2)
                \<and> attempts_loop S E i ((a, t) # rest) s = (Inr (), s2)
                \<and> events (snd s2) = events (snd s1)
                \<and> count_events RETRY_EVENT (events (snd s2))
                    = count_events RETRY_EVENT (events (snd s))
                \<and> (no_db_fault E \<and> l_result (fst s) = None \<longrightarrow>
                     fst (finalize S E s2) = Inr None
                     \<and> events (snd (snd (finalize S E s2))) = events (snd s2)
                         @ [\<lparr>ev_job = job_id (l_job (fst s)), ev_type = FAILED_EVENT,
                             ev_message = None\<rparr>]
                     \<and> map_option status
                          (jobs (snd (snd (finalize S E s2))) (job_id (l_job (fst s))))
                         = Some FAILED_STATUS)))
       \<and> (fst (pinger_determine_load E i) \<noteq> NORMAL \<and> no_db_fault E \<and> 0 \<le> t \<longrightarrow>
            (\<exists>s2. iteration S E i a t s = (Inr Continue, s2)
                \<and> events (snd s2) = events (snd s1)
                    @ [\<lparr>ev_job = job_id (l_job (fst s)), ev_type = RETRY_EVENT,
                        ev_message =
                          Some [Str ''(Attempt '', Num a, Str '') Error: '',
                                Exc (Some EmptyResponse), Str '' | Retrying in '', Secs t,
                                Str '' seconds'']\<rparr>]
                \<and> clock (snd s2) = clock (snd s1) + t
                \<and> attempts_loop S E i ((a, t) # rest) s = attempts_loop S E (Suc i) rest s2))"
proof (intro conjI impI)
  note it = iteration_Inl [OF tb, of t]
  note tbr = try_block_raises [OF tb]
  have id1: "job_id (l_job (fst s1)) = job_id (l_job (fst s))"
    using tbr(2) by simp
  {
    assume normal: "fst (pinger_determine_load E i) = NORMAL"
    from handler_empty_normal [OF normal, where a = a and t = t and ?s1.0 = s1] obtain s2 where
      h: "handler E i a t EmptyResponse s1 = (Inr Break, s2)"
      and ev: "events (snd s2) = events (snd s1)"
      and res: "l_result (fst s2) = l_result (fst s1)"
      and id2: "job_id (l_job (fst s2)) = job_id (l_job (fst s1))"
      by blast
    have retry: "count_events RETRY_EVENT (events (snd s2))
                    = count_events RETRY_EVENT (events (snd s))"
      using tbr(3) ev by (simp add: cnt_def)
    have fin: "fst (finalize S E s2) = Inr None
                     \<and> events (snd (snd (finalize S E s2))) = events (snd s2)
                         @ [\<lparr>ev_job = job_id (l_job (fst s)), ev_type = FAILED_EVENT,
                             ev_message = None\<rparr>]
                     \<and> map_option status
                          (jobs (snd (snd (finalize S E s2))) (job_id (l_job (fst s))))
                         = Some FAILED_STATUS"
      if "no_db_fault E \<and> l_result (fst s) = None"
    proof -
      have "l_result (fst s2) = None"
        using that res tbr(1) by simp
      from finalize_failed [OF _ this, where E = E and S = S] that show ?thesis
        using id1 id2 by simp
    qed
    show "\<exists>s2. iteration S E i a t s = (Inr Break, s2)
                \<and> attempts_loop S E i ((a, t) # rest) s = (Inr (), s2)
                \<and> events (snd s2) = events (snd s1)
                \<and> count_events RETRY_EVENT (events (snd s2))
                    = count_events RETRY_EVENT (events (snd s))
                \<and> (no_db_fault E \<and> l_result (fst s) = None \<longrightarrow>
                     fst (finalize S E s2) = Inr None
                     \<and> events (snd (snd (finalize S E s2))) = events (snd s2)
                         @ [\<lparr>ev_job = job_id (l_job (fst s)), ev_type = FAILED_EVENT,
                             ev_message = None\<rparr>]
                     \<and> map_option status
                          (jobs (snd (snd (finalize S E s2))) (job_id (l_job (fst s))))
                         = Some FAILED_STATUS)"
      using it h ev retry fin by (intro exI [of _ s2]) simp
  }
  {
    assume loaded: "fst (pinger_determine_load E i) \<noteq> NORMAL \<and> no_db_fault E \<and> 0 \<le> t"
    from handler_empty_loaded [where a = a and ?s1.0 = s1 and E = E and i = i and t = t] loaded obtain s2 where
      h: "handler E i a t EmptyResponse s1 = (Inr Continue, s2)"
      and ev: "events (snd s2) = events (snd s1)
               @ [\<lparr>ev_job = job_id (l_job (fst s1)), ev_type = RETRY_EVENT,
                   ev_message = Some (retry_message a (Some EmptyResponse) t)\<rparr>]"
      and clk: "clock (snd s2) = clock (snd s1) + t"
      by blast
    show "\<exists>s2. iteration S E i a t s = (Inr Continue, s2)
                \<and> events (snd s2) = events (snd s1)
                    @ [\<lparr>ev_job = job_id (l_job (fst s)), ev_type = RETRY_EVENT,
                        ev_message =
                          Some [Str ''(Attempt '', Num a, Str '') Error: '',
                                Exc (Some EmptyResponse), Str '' | Retrying in '', Secs t,
                                Str '' seconds'']\<rparr>]
                \<and> clock (snd s2) = clock (snd s1) + t
                \<and> attempts_loop S E i ((a, t) # rest) s = attempts_loop S E (Suc i) rest s2"
      using it h ev clk id1 by (intro exI [of _ s2]) (simp add: retry_message_def)
  }
qed

lemma ex_empty_try:
  "fst (try_block ex_settings (ex_env_raising EmptyResponse load) 0
          ((fst (started ex_settings (ex_env_raising EmptyResponse load) ex_job ex_world))
             \<lparr>l_num_attempts := 1\<rparr>,
           snd (started ex_settings (ex_env_raising EmptyResponse load) ex_job ex_world)))
     = Inl EmptyResponse"
  by (simp add: model_defs ex_defs ex_env_raising_def)

theorem empty_response_consults_load_witness:
  "(\<exists>s2. iteration ex_settings (ex_env_raising EmptyResponse NORMAL) 0 1 0
             (started ex_settings (ex_env_raising EmptyResponse NORMAL) ex_job ex_world)
           = (Inr Break, s2)
         \<and> attempts_loop ex_settings (ex_env_raising EmptyResponse NORMAL) 0 [(1, 0), (2, 32)]
             (started ex_settings (ex_env_raising EmptyResponse NORMAL) ex_job ex_world)
           = (Inr (), s2)
         \<and> count_events RETRY_EVENT (events (snd s2)) = 0
         \<and> fst (finalize ex_settings (ex_env_raising EmptyResponse NORMAL) s2) = Inr None
         \<and> map_option status
              (jobs (snd (snd (finalize ex_settings (ex_env_raising EmptyResponse NORMAL) s2))) ''j1'')
             = Some FAILED_STATUS)
   \<and> (\<exists>s2. iteration ex_settings (ex_env_raising EmptyResponse DOWN) 0 1 0
             (started ex_settings (ex_env_raising EmptyResponse DOWN) ex_job ex_world)
           = (Inr Continue, s2)
         \<and> events (snd s2) = events ex_world
             @ [\<lparr>ev_job = ''j1'', ev_type = UPLOADING_EVENT,
                 ev_message = Some [Str ''Started uploading files to MOSS'']\<rparr>,
                \<lparr>ev_job = ''j1'', ev_type = RETRY_EVENT,
                 ev_message =
                   Some [Str ''(Attempt '', Num 1, Str '') Error: '', Exc (Some EmptyResponse),
                         Str '' | Retrying in '', Secs 0, Str '' seconds'']\<rparr>]
         \<and> attempts_loop ex_settings (ex_env_raising EmptyResponse DOWN) 0 [(1, 0), (2, 32)]
             (started ex_settings (ex_env_raising EmptyResponse DOWN) ex_job ex_world)
           = attempts_loop ex_settings (ex_env_raising EmptyResponse DOWN) (Suc 0) [(2, 32)] s2)"
proof -
  let ?EN = "ex_env_raising EmptyResponse NORMAL"
  let ?ED = "ex_env_raising EmptyResponse DOWN"
  let ?sN = "started ex_settings ?EN ex_job ex_world"
  let ?sD = "started ex_settings ?ED ex_job ex_world"
  let ?tN = "try_block ex_settings ?EN 0 ((fst ?sN)\<lparr>l_num_attempts := 1\<rparr>, snd ?sN)"
  let ?tD = "try_block ex_settings ?ED 0 ((fst ?sD)\<lparr>l_num_attempts := 1\<rparr>, snd ?sD)"
  have tN: "?tN = (Inl EmptyResponse, snd ?tN)"
    using ex_empty_try [of NORMAL] by (simp add: prod_eq_iff)
  have tD: "?tD = (Inl EmptyResponse, snd ?tD)"
    using ex_empty_try [of DOWN] by (simp add: prod_eq_iff)
  have loadN: "fst (pinger_determine_load ?EN 0) = NORMAL"
    and loadD: "fst (pinger_determine_load ?ED 0) \<noteq> NORMAL"
    by (simp_all add: ex_env_raising_def)
  have r0: "count_events RETRY_EVENT (events (snd ?sN)) = 0"
    by (simp add: count_events_def ex_world_def)
  have id: "job_id (l_job (fst ?sN)) = ''j1''" "job_id (l_job (fst ?sD)) = ''j1''"
    by (simp_all add: ex_job_def)
  from empty_response_consults_load [OF tN, of 0 "[(2, 32)]"] loadN ex_raising_no_db_fault r0 id(1)
  have normal: "\<exists>s2. iteration ex_settings ?EN 0 1 0 ?sN = (Inr Break, s2)
         \<and> attempts_loop ex_settings ?EN 0 [(1, 0), (2, 32)] ?sN = (Inr (), s2)
         \<and> count_events RETRY_EVENT (events (snd s2)) = 0
         \<and> fst (finalize ex_settings ?EN s2) = Inr None
         \<and> map_option status (jobs (snd (snd (finalize ex_settings ?EN s2))) ''j1'')
             = Some FAILED_STATUS"
    by auto
  have evD: "events (snd (snd ?tD)) = events ex_world
             @ [\<lparr>ev_job = ''j1'', ev_type = UPLOADING_EVENT,
                 ev_message = Some [Str ''Started uploading files to MOSS'']\<rparr>]"
    by (simp add: model_defs ex_defs ex_env_raising_def)
  from empty_response_consults_load [OF tD, of 0 "[(2, 32)]"] loadD ex_raising_no_db_fault id(2) evD
  have down: "\<exists>s2. iteration ex_settings ?ED 0 1 0 ?sD = (Inr Continue, s2)
         \<and> events (snd s2) = events ex_world
             @ [\<lparr>ev_job = ''j1'', ev_type = UPLOADING_EVENT,
                 ev_message = Some [Str ''Started uploading files to MOSS'']\<rparr>,
                \<lparr>ev_job = ''j1'', ev_type = RETRY_EVENT,
                 ev_message =
                   Some [Str ''(Attempt '', Num 1, Str '') Error: '', Exc (Some EmptyResponse),
                         Str '' | Retrying in '', Secs 0, Str '' seconds'']\<rparr>]
         \<and> attempts_loop ex_settings ?ED 0 [(1, 0), (2, 32)] ?sD
           = attempts_loop ex_settings ?ED (Suc 0) [(2, 32)] s2"
    by auto
  show ?thesis
    using normal down by blast
qed

section \<open>Match records\<close>

text \<open>
  C6. The finalization of a run with a result, on a database that does not fail, adds
  to the match table one record for each raw match of the result whose two identifiers both
  resolve to submissions of the job, in the order of the result, and nothing for the
  others: read back as raw matches, the new records are the raw matches that resolve. Each
  record carries the two percentages, the number of matched lines and the line detail of
  its raw match, and its two submissions are rows of the submission table that belong to
  this job.
\<close>

theorem match_record_iff_both_resolve:
  assumes nofault: "no_db_fault E" and res: "l_result (fst s) = Some res"
  shows "\<exists>recs. matches (snd (snd (finalize S E s))) = matches (snd s) @ recs
           \<and> map raw_of recs
               = filter (\<lambda>m. resolves (snd s) (job_id (l_job (fst s))) (name_1 m)
                            \<and> resolves (snd s) (job_id (l_job (fst s))) (name_2 m))
                   (res_matches res)
           \<and> (\<forall>r\<in>set recs.
                  first_submission r \<in> set (submissions (snd s))
                  \<and> second_submission r \<in> set (submissions (snd s))
                  \<and> sub_job (first_submission r) = job_id (l_job (fst s))
                  \<and> sub_job (second_submission r) = job_id (l_job (fst s))
                  \<and> m_moss_result r
                      = \<lparr>mr_job = job_id (l_job (fst s)), mr_url = res_url res\<rparr>)"
proof -
  let ?jid = "job_id (l_job (fst s))"
  let ?mr = "\<lparr>mr_job = ?jid, mr_url = res_url res\<rparr>"
  let ?recs = "resolved_matches (snd s) ?jid ?mr (res_matches res)"
  have "matches (snd (snd (finalize S E s))) = matches (snd s) @ ?recs"
    by (rule finalize_completed(4) [OF nofault res])
  moreover have "map raw_of ?recs
      = filter (\<lambda>m. resolves (snd s) ?jid (name_1 m) \<and> resolves (snd s) ?jid (name_2 m))
          (res_matches res)"
    by (rule resolved_matches_raw)
  moreover have "\<forall>r\<in>set ?recs.
                  first_submission r \<in> set (submissions (snd s))
                  \<and> second_submission r \<in> set (submissions (snd s))
                  \<and> sub_job (first_submission r) = ?jid
                  \<and> sub_job (second_submission r) = ?jid
                  \<and> m_moss_result r = ?mr"
    using resolved_matches_own [of _ "snd s" ?jid ?mr "res_matches res"] by blast
  ultimately show ?thesis
    by blast
qed

theorem match_record_iff_both_resolve_witness:
  "matches (snd (snd (finalize ex_settings ex_env ex_parsed)))
     = [new_match \<lparr>mr_job = ''j1'', mr_url = ''http://moss.stanford.edu/results/1/23''\<rparr>
          \<lparr>sub_job = ''j1'', submission_id = ''a'', sub_name = ''a.py''\<rparr>
          \<lparr>sub_job = ''j1'', submission_id = ''b'', sub_name = ''b.py''\<rparr>
          (hd (res_matches ex_result))]
   \<and> resolves ex_world ''j1'' ''a'' \<and> resolves ex_world ''j1'' ''b''
   \<and> \<not> resolves ex_world ''j1'' ''c''
   \<and> (\<exists>recs. matches (snd (snd (finalize ex_settings ex_env ex_parsed))) = matches ex_world @ recs
           \<and> map raw_of recs = [hd (res_matches ex_result)])"
proof -
  have res: "l_result (fst ex_parsed) = Some ex_result"
    by (simp add: ex_parsed_def)
  have r: "resolves ex_world ''j1'' ''a''" "resolves ex_world ''j1'' ''b''"
    "\<not> resolves ex_world ''j1'' ''c''"
    by (simp_all add: resolves_def ex_world_def)
  have flt: "filter (\<lambda>m. resolves (snd ex_parsed) (job_id (l_job (fst ex_parsed))) (name_1 m)
                            \<and> resolves (snd ex_parsed) (job_id (l_job (fst ex_parsed))) (name_2 m))
                   (res_matches ex_result) = [hd (res_matches ex_result)]"
    using r by (simp add: ex_parsed_def ex_job_def ex_result_def)
  have ev: "matches (snd (snd (finalize ex_settings ex_env ex_parsed)))
     = [new_match \<lparr>mr_job = ''j1'', mr_url = ''http://moss.stanford.edu/results/1/23''\<rparr>
          \<lparr>sub_job = ''j1'', submission_id = ''a'', sub_name = ''a.py''\<rparr>
          \<lparr>sub_job = ''j1'', submission_id = ''b'', sub_name = ''b.py''\<rparr>
          (hd (res_matches ex_result))]"
    by (simp add: model_defs ex_defs ex_parsed_def)
  from match_record_iff_both_resolve [OF ex_no_db_fault res, of ex_settings]
  have "\<exists>recs. matches (snd (snd (finalize ex_settings ex_env ex_parsed))) = matches ex_world @ recs
           \<and> map raw_of recs = [hd (res_matches ex_result)]"
    unfolding flt by (auto simp: ex_parsed_def)
  then show ?thesis
    using r ev by blast
qed

section \<open>The \<^verbatim>\<open>finally\<close> clause\<close>









text \<open>
  The loop is left without an exception when the \<^verbatim>\<open>RETRY\<close> events can be written
  and no wait is negative: only lines 183 to 189 stand outside the \<^verbatim>\<open>try\<close>.
\<close>

lemma handler_returns:
  assumes "\<forall>n e. ev_type e = RETRY_EVENT \<longrightarrow> \<not> db_fault E n (CreateEvent e)" and "0 \<le> t"
  shows "\<exists>c. fst (handler E i a t e s) = Inr c"
  using assms
  by (simp add: handler_def retry_tail_def bindE_def returnE_def contact_def logger_def
        JobEvent_create_def db_write_def time_sleep_def Let_def)

lemma attempts_loop_returns:
  assumes "\<forall>n e. ev_type e = RETRY_EVENT \<longrightarrow> \<not> db_fault E n (CreateEvent e)"
    and "\<forall>p\<in>set sched. 0 \<le> snd p"
  shows "fst (attempts_loop S E i sched s) = Inr ()"
  using assms(2)
proof (induction sched arbitrary: i s)
  case Nil
  show ?case by simp
next
  case (Cons p sched)
  obtain a t where p: "p = (a, t)" by (metis surj_pair)
  have t: "0 \<le> t"
    using Cons.prems p by simp
  obtain rt s1 where tb: "try_block S E i ((fst s)\<lparr>l_num_attempts := a\<rparr>, snd s) = (rt, s1)"
    by (metis surj_pair)
  show ?case
  proof (cases rt)
    case (Inr u)
    then show ?thesis
      using p iteration_Inr [OF tb [unfolded Inr], of t] by simp
  next
    case (Inl e)
    obtain r s2 where h: "handler E i a t e s1 = (r, s2)"
      by (metis surj_pair)
    from handler_returns [OF assms(1) t, of i a e s1] h obtain c where c: "r = Inr c"
      by auto
    have it: "iteration S E i a t s = (Inr c, s2)"
      using iteration_Inl [OF tb [unfolded Inl], of t] h c by simp
    show ?thesis
      using p it Cons.IH [where i = "Suc i" and s = s2] Cons.prems by (cases c) simp_all
  qed
qed






section \<open>The budget of the scheduler\<close>

lemma next_delay_ge: "min_time \<le> next_delay min_time max_time base_range draw n previous"
  by (simp add: next_delay_def clamp_def)

lemma retry_from_total:
  assumes mn: "0 < mn"
  shows "0 \<le> wait \<Longrightarrow> elapsed \<le> D
     \<Longrightarrow> D - elapsed + (if wait < mn then mn else 0) < real k * mn
     \<Longrightarrow> \<exists>sched. retry_from mn mx br D draw attempt wait elapsed = Some sched
           \<and> elapsed + sum_list (map snd sched) \<le> D
           \<and> (\<forall>p\<in>set sched. 0 \<le> snd p)
           \<and> map fst sched = [attempt..<attempt + length sched]
           \<and> (\<forall>i<length sched. snd (sched ! i) = waits_from mn mx br draw attempt wait i)
           \<and> D < elapsed + sum_list (map snd sched)
                 + waits_from mn mx br draw attempt wait (length sched)"
proof (induction k arbitrary: attempt wait elapsed)
  case 0
  then show ?case
    using mn by (simp split: if_splits)
next
  case (Suc k)
  show ?case
  proof (cases "elapsed + wait > D")
    case True
    then have "retry_from mn mx br D draw attempt wait elapsed = Some []"
      by (subst retry_from.simps) simp
    then show ?thesis
      using True Suc.prems(2) by simp
  next
    case False
    let ?w = "next_delay mn mx br draw (Suc attempt) wait"
    have w: "mn \<le> ?w"
      by (rule next_delay_ge)
    have m: "D - (elapsed + wait) + (if ?w < mn then mn else 0) < real k * mn"
      using Suc.prems(1,3) w by (auto simp: algebra_simps split: if_splits)
    from Suc.IH [of ?w "elapsed + wait" "Suc attempt"] w mn False m obtain rest where
      rest: "retry_from mn mx br D draw (Suc attempt) ?w (elapsed + wait) = Some rest"
        "elapsed + wait + sum_list (map snd rest) \<le> D"
        "\<forall>p\<in>set rest. 0 \<le> snd p"
        "map fst rest = [Suc attempt..<Suc attempt + length rest]"
        "\<forall>i<length rest. snd (rest ! i) = waits_from mn mx br draw (Suc attempt) ?w i"
        "D < elapsed + wait + sum_list (map snd rest)
               + waits_from mn mx br draw (Suc attempt) ?w (length rest)"
      by auto
    have eq: "retry_from mn mx br D draw attempt wait elapsed = Some ((attempt, wait) # rest)"
      using False rest(1) by (subst retry_from.simps) simp
    have nth: "\<forall>i<length ((attempt, wait) # rest).
        snd (((attempt, wait) # rest) ! i) = waits_from mn mx br draw attempt wait i"
    proof (intro allI impI)
      fix i assume "i < length ((attempt, wait) # rest)"
      then show "snd (((attempt, wait) # rest) ! i) = waits_from mn mx br draw attempt wait i"
        using rest(5) by (cases i) simp_all
    qed
    have fsts: "map fst ((attempt, wait) # rest) = [attempt..<attempt + length ((attempt, wait) # rest)]"
    proof -
      have "[attempt..<attempt + length ((attempt, wait) # rest)]
              = attempt # [Suc attempt..<Suc attempt + length rest]"
        by (subst upt_rec) simp
      then show ?thesis
        using rest(4) by simp
    qed
    show ?thesis
      using eq rest(2,3,6) Suc.prems(1) nth fsts
      by (intro exI [of _ "(attempt, wait) # rest"]) (simp add: algebra_simps)
  qed
qed

lemma sum_list_take_le:
  fixes xs :: "real list"
  assumes "\<forall>x\<in>set xs. 0 \<le> x"
  shows "sum_list (take k xs) \<le> sum_list xs"
proof -
  have "sum_list xs = sum_list (take k xs) + sum_list (drop k xs)"
    by (metis append_take_drop_id sum_list_append)
  moreover have "0 \<le> sum_list (drop k xs)"
    using assms by (auto intro!: sum_list_nonneg dest: in_set_dropD)
  ultimately show ?thesis
    by simp
qed

lemma attempt_errors_length: "length (attempt_errors S E i sched s) \<le> length sched"
proof (induction sched arbitrary: i s)
  case Nil
  show ?case by simp
next
  case (Cons p sched)
  obtain a t where p: "p = (a, t)" by (metis surj_pair)
  obtain r s1 where it: "iteration S E i a t s = (r, s1)" by (metis surj_pair)
  show ?case
  proof (cases r)
    case (Inl e)
    then show ?thesis using p it by simp
  next
    case (Inr c)
    then show ?thesis
      using p it Cons [where i = "Suc i" and s = s1] by (cases c) simp_all
  qed
qed

text \<open>
  C8. With a positive minimal delay and a budget that is not negative, the scheduler
  yields a finite sequence of pairs, numbered from 1. The waits of every prefix of the
  sequence add up to no more than the budget, each wait is the one the delay rule
  computes, and the sequence stops exactly where the next wait would take the sum over the
  budget. The loop of \<^verbatim>\<open>process_job\<close> makes at most one attempt for each pair, so it
  ends.
\<close>

theorem retry_within_budget:
  assumes "0 < min_time" and "0 \<le> max_duration"
  shows "\<exists>sched.
      retry_spec min_time max_time base_range max_duration first_instant draw = Some sched
    \<and> (\<forall>k\<le>length sched. sum_list (map snd (take k sched)) \<le> max_duration)
    \<and> map fst sched = [1..<Suc (length sched)]
    \<and> (\<forall>i<length sched.
          snd (sched ! i) = waits_from min_time max_time base_range draw 1
                              (first_delay min_time first_instant) i)
    \<and> max_duration < sum_list (map snd sched)
          + waits_from min_time max_time base_range draw 1
              (first_delay min_time first_instant) (length sched)
    \<and> (\<forall>S E i s. length (attempt_errors S E i sched s) \<le> length sched)"
proof -
  let ?w = "first_delay min_time first_instant"
  obtain k where k: "max_duration + min_time < real k * min_time"
    using ex_less_of_nat_mult [OF assms(1)] by blast
  have w0: "0 \<le> ?w"
    using assms(1) by (simp add: first_delay_def)
  have m: "max_duration - 0 + (if ?w < min_time then min_time else 0) < real k * min_time"
    using k assms(1) by simp
  from retry_from_total [OF assms(1) w0 _ m, of max_time base_range draw 1] assms(2)
  obtain sched where
    s: "retry_from min_time max_time base_range max_duration draw 1 ?w 0 = Some sched"
      "0 + sum_list (map snd sched) \<le> max_duration"
      "\<forall>p\<in>set sched. 0 \<le> snd p"
      "map fst sched = [1..<1 + length sched]"
      "\<forall>i<length sched. snd (sched ! i) = waits_from min_time max_time base_range draw 1 ?w i"
      "max_duration < 0 + sum_list (map snd sched)
          + waits_from min_time max_time base_range draw 1 ?w (length sched)"
    by auto
  have prefix: "\<forall>k\<le>length sched. sum_list (map snd (take k sched)) \<le> max_duration"
  proof (intro allI impI)
    fix k
    have "sum_list (take k (map snd sched)) \<le> sum_list (map snd sched)"
      using s(3) by (intro sum_list_take_le) auto
    then show "sum_list (map snd (take k sched)) \<le> max_duration"
      using s(2) by (simp add: take_map)
  qed
  show ?thesis
    using s(1,4,5,6) prefix attempt_errors_length
    by (intro exI [of _ sched]) (simp add: retry_spec_def)
qed

theorem retry_within_budget_witness:
  "\<exists>sched. retry_spec 32 256 (3 / 2, 5 / 2) 600 True (\<lambda>n. 1 / 2) = Some sched
     \<and> sched = [(1, 0), (2, 32), (3, 64), (4, 128), (5, 256)]
     \<and> (\<forall>k\<le>length sched. sum_list (map snd (take k sched)) \<le> 600)
     \<and> 600 < sum_list (map snd sched)
          + waits_from 32 256 (3 / 2, 5 / 2) (\<lambda>n. 1 / 2) 1 (first_delay 32 True) (length sched)"
proof -
  have eval: "retry_spec 32 256 (3 / 2, 5 / 2) 600 True (\<lambda>n. 1 / 2)
                = Some [(1, 0), (2, 32), (3, 64), (4, 128), (5, 256)]"
    by (simp add: retry_spec_def first_delay_def retry_from.simps next_delay_def clamp_def)
  have pos: "(0::real) < 32" and budget: "(0::real) \<le> 600"
    by simp_all
  from retry_within_budget [OF pos budget, of 256 "(3 / 2, 5 / 2)" True "\<lambda>n. 1 / 2"]
  show ?thesis
    using eval by auto
qed

end
